theory Spec2Isabelle
  imports Main "HOL-Library.Word"
begin

unbundle bit_operations_syntax

section \<open>The two relays: datapipe.c and revdatapipe.c\<close>

text \<open>
  Both programs are a single \<^verbatim>\<open>main\<close>: they dial two endpoints given on the command
  line and then copy bytes between the two sockets in a \<^verbatim>\<open>select\<close> loop. The model
  is the non-Windows branch of the \<^verbatim>\<open>#if\<close>: \<^verbatim>\<open>recv\<close> is \<^verbatim>\<open>read\<close>, \<^verbatim>\<open>send\<close> is
  \<^verbatim>\<open>write\<close>, \<^verbatim>\<open>closesocket\<close> is \<^verbatim>\<open>close\<close> and \<^verbatim>\<open>SOCKET\<close> is \<^verbatim>\<open>int\<close>.

  The program is modelled by explicit state passing. The state has two parts: the
  local variables of \<^verbatim>\<open>main\<close> (a record) and the kernel's table of open descriptors
  (the list of descriptor numbers that are open). Everything the operating system
  decides (whether a call fails, which bytes arrive, how many bytes a write takes)
  is an input of the model, the environment. Every system call the program makes is
  recorded, with its arguments and its result, in the list of events that the model
  returns next to the outcome.

  What the model takes from POSIX rather than from the two files: \<^verbatim>\<open>socket\<close> returns the
  lowest descriptor number that is not open; \<^verbatim>\<open>close\<close> frees the number; \<^verbatim>\<open>select\<close>,
  \<^verbatim>\<open>read\<close> and \<^verbatim>\<open>write\<close> fail on a descriptor that is not open; \<^verbatim>\<open>read\<close> stores at
  most the number of bytes asked for and \<^verbatim>\<open>write\<close> takes at most the number handed to
  it. A run is the control flow of \<^verbatim>\<open>main\<close>: signals (a \<^verbatim>\<open>write\<close> on a connection the
  peer has reset may raise SIGPIPE), a \<^verbatim>\<open>write\<close> that blocks for ever and descriptors
  beyond \<^verbatim>\<open>FD_SETSIZE\<close> are outside the model.
\<close>

subsection \<open>C library: atol, the cast to unsigned short, htons\<close>

type_synonym byte = "8 word"
type_synonym SOCKET = int

definition isspace :: "char \<Rightarrow> bool" where
  "isspace c = (of_char c \<in> {32, 9, 10, 11, 12, 13 :: nat})"

definition isdigit :: "char \<Rightarrow> bool" where
  "isdigit c = (48 \<le> (of_char c :: nat) \<and> (of_char c :: nat) \<le> 57)"

text \<open>The decimal digits at the start of a string, read onto an accumulator.\<close>

fun digits_value :: "int \<Rightarrow> string \<Rightarrow> int" where
  "digits_value acc [] = acc"
| "digits_value acc (c # cs) =
     (if isdigit c then digits_value (10 * acc + (int (of_char c) - 48)) cs else acc)"

definition LONG_MAX :: int where
  "LONG_MAX = 2 ^ 63 - 1"

definition LONG_MIN :: int where
  "LONG_MIN = - (2 ^ 63)"

definition to_long :: "int \<Rightarrow> int" where
  "to_long v = (if v > LONG_MAX then LONG_MAX else if v < LONG_MIN then LONG_MIN else v)"

text \<open>
  \<^verbatim>\<open>atol\<close> as \<^verbatim>\<open>strtol(s, NULL, 10)\<close> on an LP64 machine: white space is skipped, an
  optional sign is read, then the decimal digits up to the first other character; no
  digits give 0, and a value that does not fit a \<^verbatim>\<open>long\<close> is clamped.
\<close>

definition atol :: "string \<Rightarrow> int" where
  "atol str =
     (case dropWhile isspace str of
        [] \<Rightarrow> 0
      | c # cs \<Rightarrow>
          if c = CHR ''-'' then to_long (- digits_value 0 cs)
          else if c = CHR ''+'' then to_long (digits_value 0 cs)
          else to_long (digits_value 0 (c # cs)))"

text \<open>The cast \<^verbatim>\<open>(unsigned short)\<close> keeps the low 16 bits.\<close>

definition to_ushort :: "int \<Rightarrow> 16 word" where
  "to_ushort v = word_of_int v"

text \<open>\<^verbatim>\<open>htons\<close> on a little-endian host swaps the two bytes.\<close>

definition htons :: "16 word \<Rightarrow> 16 word" where
  "htons x = push_bit 8 x OR drop_bit 8 x"

definition INADDR_NONE :: "32 word" where
  "INADDR_NONE = 0xffffffff"

subsection \<open>The environment and the kernel's descriptor table\<close>

text \<open>
  What one pass of the polling loop meets: the result of \<^verbatim>\<open>select\<close> (it never returns,
  it fails, or it returns with the listed descriptors readable), of \<^verbatim>\<open>read\<close> (it
  fails, or these bytes are available; no bytes is end of stream) and of \<^verbatim>\<open>write\<close>
  (it fails, or the transport takes that many bytes).
\<close>

datatype select_out = SelectBlocks | SelectFails | SelectReady "SOCKET list"
datatype recv_out = RecvFails | RecvBytes "byte list"
datatype send_out = SendFails | SendTakes nat

record iter_env =
  on_select :: select_out
  on_recv :: recv_out
  on_send :: send_out

record env =
  open_fds :: "int list"
  inet_addr :: "string \<Rightarrow> 32 word"
  gethostbyname :: "string \<Rightarrow> 32 word option"
  socket_ok :: "nat \<Rightarrow> bool"
  connect_ret :: "nat \<Rightarrow> int"
  fork_ret :: int
  script :: "iter_env list"

text \<open>
  The system calls and messages of a run, in order, each with its arguments and its
  result: \<^verbatim>\<open>Select nfds fdsr r fdsr'\<close> is a call of \<^verbatim>\<open>select\<close> on the set \<open>fdsr\<close> that
  returned \<open>r\<close> and left \<open>fdsr'\<close> in the set; \<^verbatim>\<open>Recv fd len n d\<close> is a \<^verbatim>\<open>read\<close> of at
  most \<open>len\<close> bytes that returned \<open>n\<close> and stored the bytes \<open>d\<close>; \<^verbatim>\<open>Send fd d k\<close> is a
  \<^verbatim>\<open>write\<close> of the bytes \<open>d\<close> that returned \<open>k\<close>.
\<close>

datatype syscall =
    Fprintf string
  | Perror string
  | Socket int
  | Connect SOCKET "16 word" "32 word" int
  | Close SOCKET
  | Fork int
  | Setsid
  | Select int "SOCKET list" int "SOCKET list"
  | Recv SOCKET nat int "byte list"
  | Send SOCKET "byte list" int

text \<open>\<^verbatim>\<open>socket\<close> returns the lowest descriptor number that is not open (POSIX).\<close>

fun first_free :: "int list \<Rightarrow> int \<Rightarrow> nat \<Rightarrow> int" where
  "first_free fds k 0 = k"
| "first_free fds k (Suc n) = (if k \<in> set fds then first_free fds (k + 1) n else k)"

definition os_socket :: "int list \<Rightarrow> bool \<Rightarrow> int \<times> int list" where
  "os_socket fds ok =
     (if ok then (let fd = first_free fds 0 (length fds) in (fd, fd # fds)) else (-1, fds))"

definition os_close :: "int list \<Rightarrow> SOCKET \<Rightarrow> int list" where
  "os_close fds fd = removeAll fd fds"

text \<open>
  An \<^verbatim>\<open>fd_set\<close> is the list of the descriptors set in it. \<^verbatim>\<open>select\<close> looks at the
  descriptors below \<^verbatim>\<open>nfds\<close>; one of them that is not open makes it fail at once
  (EBADF). Otherwise the environment decides. On return the set holds the descriptors
  that are readable, and the result is their number.
\<close>

definition FD_ZERO :: "SOCKET list" where
  "FD_ZERO = []"

definition FD_SET :: "SOCKET \<Rightarrow> SOCKET list \<Rightarrow> SOCKET list" where
  "FD_SET fd fdsr = fdsr @ [fd]"

definition FD_ISSET :: "SOCKET \<Rightarrow> SOCKET list \<Rightarrow> bool" where
  "FD_ISSET fd fdsr = (fd \<in> set fdsr)"

definition bad_descriptor :: "int list \<Rightarrow> int \<Rightarrow> SOCKET list \<Rightarrow> bool" where
  "bad_descriptor fds nfds fdsr = (filter (\<lambda>fd. fd < nfds \<and> fd \<notin> set fds) fdsr \<noteq> [])"

definition os_select ::
  "int list \<Rightarrow> int \<Rightarrow> SOCKET list \<Rightarrow> select_out \<Rightarrow> (int \<times> SOCKET list) option" where
  "os_select fds nfds fdsr out =
     (if bad_descriptor fds nfds fdsr then Some (-1, fdsr)
      else case out of
        SelectBlocks \<Rightarrow> None
      | SelectFails \<Rightarrow> Some (-1, fdsr)
      | SelectReady r \<Rightarrow>
          (let fdsr' = filter (\<lambda>fd. fd < nfds \<and> fd \<in> set r) fdsr
           in Some (int (length (remdups fdsr')), fdsr')))"

text \<open>
  \<^verbatim>\<open>read(fd, buf, len)\<close>: -1 on a descriptor that is not open or when the environment
  says so; otherwise at most \<^verbatim>\<open>len\<close> of the available bytes are stored at the start of
  the buffer and their number is returned (0 at end of stream).
\<close>

definition os_recv ::
  "int list \<Rightarrow> SOCKET \<Rightarrow> byte list \<Rightarrow> nat \<Rightarrow> recv_out \<Rightarrow> int \<times> byte list" where
  "os_recv fds fd b len out =
     (if fd \<notin> set fds then (-1, b)
      else case out of
        RecvFails \<Rightarrow> (-1, b)
      | RecvBytes d \<Rightarrow> (let d' = take len d in (int (length d'), d' @ drop (length d') b)))"

text \<open>
  \<^verbatim>\<open>write(fd, bytes, n)\<close>: -1 on a descriptor that is not open or when the environment
  says so; otherwise the number of bytes taken, at most \<^verbatim>\<open>n\<close>.
\<close>

definition os_send :: "int list \<Rightarrow> SOCKET \<Rightarrow> byte list \<Rightarrow> send_out \<Rightarrow> int" where
  "os_send fds fd bytes out =
     (if fd \<notin> set fds then -1
      else case out of
        SendFails \<Rightarrow> -1
      | SendTakes k \<Rightarrow> int (min k (length bytes)))"

subsection \<open>The local variables of main\<close>

text \<open>
  \<^verbatim>\<open>char buf[4096]; SOCKET sockfd[2]; SOCKET maxsock = 0;\<close> in both files. The array
  \<^verbatim>\<open>sockfd\<close> is a function of the index. \<^verbatim>\<open>dest[i]\<close> is written and passed to
  \<^verbatim>\<open>connect\<close> within one pass of the dialling loop, so it lives in the
  \<^verbatim>\<open>Connect\<close> event. revdatapipe.c declares \<^verbatim>\<open>nbyt\<close> and \<^verbatim>\<open>closeneeded\<close> outside
  the polling loop, datapipe.c inside its body.
\<close>

record locals =
  buf :: "byte list"
  sockfd :: "nat \<Rightarrow> SOCKET"
  maxsock :: SOCKET

record rdp_locals = locals +
  nbyt :: int
  closeneeded :: int

definition sizeof_buf :: nat where
  "sizeof_buf = 4096"

datatype 'a result = Return int | Next "int list" 'a

datatype outcome = Exited int | Waiting

subsection \<open>The copy expression shared by both branches and both files\<close>

text \<open>
  \<^verbatim>\<open>(nbyt = recv(src, buf, sizeof(buf), 0)) <= 0 || send(dst, buf, nbyt, 0) <= 0\<close>:
  the events, the buffer afterwards, \<^verbatim>\<open>nbyt\<close> and the value of the condition.
  \<^verbatim>\<open>send\<close> is called only when \<^verbatim>\<open>recv\<close> returned a positive count.
\<close>

definition recv_or_send ::
  "int list \<Rightarrow> SOCKET \<Rightarrow> SOCKET \<Rightarrow> byte list \<Rightarrow> iter_env \<Rightarrow>
     syscall list \<times> byte list \<times> int \<times> bool" where
  "recv_or_send fds src dst b e =
     (let (n, b') = os_recv fds src b sizeof_buf (on_recv e) in
      if n \<le> 0 then ([Recv src sizeof_buf n []], b', n, True)
      else
        (let k = os_send fds dst (take (nat n) b') (on_send e) in
         ([Recv src sizeof_buf n (take (nat n) b'), Send dst (take (nat n) b') k],
          b', n, k \<le> 0)))"

subsection \<open>revdatapipe.c\<close>

text \<open>Lines 57 to 88: one pass of \<^verbatim>\<open>for(i = 0; i < 2; ++i)\<close>.\<close>

definition rdp_dial ::
  "nat \<Rightarrow> string list \<Rightarrow> env \<Rightarrow> int list \<Rightarrow> rdp_locals \<Rightarrow>
     syscall list \<times> rdp_locals result" where
  "rdp_dial i argv e fds s =
     (let sin_port = htons (to_ushort (atol (argv ! (2 + i * 2)))) in
      if sin_port = 0 then ([Fprintf ''invalid target port''], Return (-1))
      else
        (let a = inet_addr e (argv ! (1 + i * 2)) in
         case (if a = INADDR_NONE then gethostbyname e (argv ! (1 + i * 2)) else Some a) of
           None \<Rightarrow> ([Perror ''gethostbyname''], Return (-1))
         | Some s_addr \<Rightarrow>
             (let (fd, fds1) = os_socket fds (socket_ok e i);
                  s1 = s\<lparr>sockfd := (sockfd s)(i := fd)\<rparr>
              in
              if fd < 0 then ([Socket fd, Perror ''socket''], Return (-1))
              else
                (let s2 = (if sockfd s1 i > maxsock s1 then s1\<lparr>maxsock := sockfd s1 i\<rparr> else s1);
                     c = connect_ret e i
                 in
                 if c \<noteq> 0
                 then ([Socket fd, Connect (sockfd s2 i) sin_port s_addr c,
                        Perror ''connect'', Close (sockfd s2 i)],
                       Next (os_close fds1 (sockfd s2 i)) s2)
                 else ([Socket fd, Connect (sockfd s2 i) sin_port s_addr c],
                       Next fds1 s2)))))"

function rdp_for ::
  "nat \<Rightarrow> string list \<Rightarrow> env \<Rightarrow> int list \<Rightarrow> rdp_locals \<Rightarrow>
     syscall list \<times> rdp_locals result" where
  "rdp_for i argv e fds s =
     (if i < 2 then
        (case rdp_dial i argv e fds s of
           (ev, Return st) \<Rightarrow> (ev, Return st)
         | (ev, Next fds' s') \<Rightarrow>
             (case rdp_for (i + 1) argv e fds' s' of (ev', r) \<Rightarrow> (ev @ ev', r)))
      else ([], Next fds s))"
  by pat_completeness auto
termination
  by (relation "measure (\<lambda>(i, argv, e, fds, s). 2 - i)") auto

text \<open>Lines 107 to 116: the \<^verbatim>\<open>if / else if\<close> on the two descriptors.\<close>

definition rdp_service ::
  "int list \<Rightarrow> rdp_locals \<Rightarrow> SOCKET list \<Rightarrow> iter_env \<Rightarrow> syscall list \<times> rdp_locals" where
  "rdp_service fds s fdsr e =
     (if FD_ISSET (sockfd s 0) fdsr then
        (case recv_or_send fds (sockfd s 0) (sockfd s 1) (buf s) e of
           (ev, b, n, c) \<Rightarrow>
             (ev, if c then s\<lparr>buf := b, nbyt := n, closeneeded := 1\<rparr>
                  else s\<lparr>buf := b, nbyt := n\<rparr>))
      else if FD_ISSET (sockfd s 1) fdsr then
        (case recv_or_send fds (sockfd s 1) (sockfd s 0) (buf s) e of
           (ev, b, n, c) \<Rightarrow>
             (ev, if c then s\<lparr>buf := b, nbyt := n, closeneeded := 1\<rparr>
                  else s\<lparr>buf := b, nbyt := n\<rparr>))
      else ([], s))"

text \<open>Lines 97 to 121: one pass of \<^verbatim>\<open>while (1)\<close>.\<close>

definition rdp_iteration ::
  "int list \<Rightarrow> rdp_locals \<Rightarrow> iter_env \<Rightarrow> syscall list \<times> rdp_locals result option" where
  "rdp_iteration fds s e =
     (let fdsr = FD_SET (sockfd s 1) (FD_SET (sockfd s 0) FD_ZERO);
          nfds = maxsock s + 1
      in
      case os_select fds nfds fdsr (on_select e) of
        None \<Rightarrow> ([], None)
      | Some (r, fdsr') \<Rightarrow>
          if r < 0 then ([Select nfds fdsr r fdsr'], Some (Return (-1)))
          else
            (case rdp_service fds (s\<lparr>nbyt := 0, closeneeded := 0\<rparr>) fdsr' e of
               (ev, s') \<Rightarrow>
                 if closeneeded s' \<noteq> 0
                 then (Select nfds fdsr r fdsr' # ev @ [Close (sockfd s' 0), Close (sockfd s' 1)],
                       Some (Next (os_close (os_close fds (sockfd s' 0)) (sockfd s' 1)) s'))
                 else (Select nfds fdsr r fdsr' # ev, Some (Next fds s'))))"

text \<open>
  The loop runs on the environment's script, one entry per pass. When the script is
  used up the process is inside \<^verbatim>\<open>select\<close>: it has either failed on a closed
  descriptor or it waits. \<^verbatim>\<open>return 0\<close> after the loop has no path to it.
\<close>

definition idle :: iter_env where
  "idle = \<lparr>on_select = SelectBlocks, on_recv = RecvFails, on_send = SendFails\<rparr>"

fun rdp_loop :: "int list \<Rightarrow> rdp_locals \<Rightarrow> iter_env list \<Rightarrow> syscall list \<times> outcome" where
  "rdp_loop fds s [] =
     (case rdp_iteration fds s idle of
        (ev, Some (Return st)) \<Rightarrow> (ev, Exited st)
      | (ev, _) \<Rightarrow> (ev, Waiting))"
| "rdp_loop fds s (e # es) =
     (case rdp_iteration fds s e of
        (ev, None) \<Rightarrow> (ev, Waiting)
      | (ev, Some (Return st)) \<Rightarrow> (ev, Exited st)
      | (ev, Some (Next fds' s')) \<Rightarrow>
          (case rdp_loop fds' s' es of (ev', out) \<Rightarrow> (ev @ ev', out)))"

definition rdp_main :: "string list \<Rightarrow> env \<Rightarrow> rdp_locals \<Rightarrow> syscall list \<times> outcome" where
  "rdp_main argv e s0 =
     (if 5 \<noteq> int (length argv) then ([Fprintf ''Usage''], Exited (-1))
      else
        (case rdp_for 0 argv e (open_fds e) (s0\<lparr>maxsock := 0\<rparr>) of
           (ev, Return st) \<Rightarrow> (ev, Exited st)
         | (ev, Next fds s) \<Rightarrow>
             (case rdp_loop fds (s\<lparr>closeneeded := 0\<rparr>) (script e) of
                (ev', out) \<Rightarrow> (ev @ ev', out))))"

subsection \<open>datapipe.c\<close>

text \<open>Lines 105 to 136: one pass of \<^verbatim>\<open>for(i = 0; i < 2; ++i)\<close>.\<close>

definition dp_dial ::
  "nat \<Rightarrow> string list \<Rightarrow> env \<Rightarrow> int list \<Rightarrow> locals \<Rightarrow> syscall list \<times> locals result" where
  "dp_dial i argv e fds s =
     (let sin_port = htons (to_ushort (atol (argv ! (2 + i * 2)))) in
      if sin_port = 0 then ([Fprintf ''invalid target port''], Return 25)
      else
        (let a = inet_addr e (argv ! (1 + i * 2)) in
         case (if a = INADDR_NONE then gethostbyname e (argv ! (1 + i * 2)) else Some a) of
           None \<Rightarrow> ([Perror ''gethostbyname''], Return 25)
         | Some s_addr \<Rightarrow>
             (let (fd, fds1) = os_socket fds (socket_ok e i);
                  s1 = s\<lparr>sockfd := (sockfd s)(i := fd)\<rparr>
              in
              if fd < 0 then ([Socket fd, Perror ''socket''], Return (-1))
              else
                (let s2 = (if sockfd s1 i > maxsock s1 then s1\<lparr>maxsock := sockfd s1 i\<rparr> else s1);
                     c = connect_ret e i
                 in
                 if c \<noteq> 0
                 then ([Socket fd, Connect (sockfd s2 i) sin_port s_addr c,
                        Perror ''connect'', Close (sockfd s2 i)],
                       Next (os_close fds1 (sockfd s2 i)) s2)
                 else ([Socket fd, Connect (sockfd s2 i) sin_port s_addr c],
                       Next fds1 s2)))))"

function dp_for ::
  "nat \<Rightarrow> string list \<Rightarrow> env \<Rightarrow> int list \<Rightarrow> locals \<Rightarrow> syscall list \<times> locals result" where
  "dp_for i argv e fds s =
     (if i < 2 then
        (case dp_dial i argv e fds s of
           (ev, Return st) \<Rightarrow> (ev, Return st)
         | (ev, Next fds' s') \<Rightarrow>
             (case dp_for (i + 1) argv e fds' s' of (ev', r) \<Rightarrow> (ev @ ev', r)))
      else ([], Next fds s))"
  by pat_completeness auto
termination
  by (relation "measure (\<lambda>(i, argv, e, fds, s). 2 - i)") auto

text \<open>
  Lines 164 to 174: \<^verbatim>\<open>int nbyt, closeneeded = 0;\<close> and the \<^verbatim>\<open>if / else if\<close>. The
  result carries \<^verbatim>\<open>closeneeded\<close>, which is local to the loop body here.
\<close>

definition dp_service ::
  "int list \<Rightarrow> locals \<Rightarrow> SOCKET list \<Rightarrow> iter_env \<Rightarrow> syscall list \<times> locals \<times> int" where
  "dp_service fds s fdsr e =
     (let closeneeded0 = 0 in
      if FD_ISSET (sockfd s 0) fdsr then
        (case recv_or_send fds (sockfd s 0) (sockfd s 1) (buf s) e of
           (ev, b, n, c) \<Rightarrow> (ev, s\<lparr>buf := b\<rparr>, if c then 1 else closeneeded0))
      else if FD_ISSET (sockfd s 1) fdsr then
        (case recv_or_send fds (sockfd s 1) (sockfd s 0) (buf s) e of
           (ev, b, n, c) \<Rightarrow> (ev, s\<lparr>buf := b\<rparr>, if c then 1 else closeneeded0))
      else ([], s, closeneeded0))"

text \<open>Lines 155 to 179: one pass of \<^verbatim>\<open>while (1)\<close>.\<close>

definition dp_iteration ::
  "int list \<Rightarrow> locals \<Rightarrow> iter_env \<Rightarrow> syscall list \<times> locals result option" where
  "dp_iteration fds s e =
     (let fdsr = FD_SET (sockfd s 1) (FD_SET (sockfd s 0) FD_ZERO);
          nfds = maxsock s + 1
      in
      case os_select fds nfds fdsr (on_select e) of
        None \<Rightarrow> ([], None)
      | Some (r, fdsr') \<Rightarrow>
          if r < 0 then ([Select nfds fdsr r fdsr'], Some (Return 30))
          else
            (case dp_service fds s fdsr' e of
               (ev, s', cn) \<Rightarrow>
                 if cn \<noteq> 0
                 then (Select nfds fdsr r fdsr' # ev @ [Close (sockfd s' 0), Close (sockfd s' 1)],
                       Some (Next (os_close (os_close fds (sockfd s' 0)) (sockfd s' 1)) s'))
                 else (Select nfds fdsr r fdsr' # ev, Some (Next fds s'))))"

fun dp_loop :: "int list \<Rightarrow> locals \<Rightarrow> iter_env list \<Rightarrow> syscall list \<times> outcome" where
  "dp_loop fds s [] =
     (case dp_iteration fds s idle of
        (ev, Some (Return st)) \<Rightarrow> (ev, Exited st)
      | (ev, _) \<Rightarrow> (ev, Waiting))"
| "dp_loop fds s (e # es) =
     (case dp_iteration fds s e of
        (ev, None) \<Rightarrow> (ev, Waiting)
      | (ev, Some (Return st)) \<Rightarrow> (ev, Exited st)
      | (ev, Some (Next fds' s')) \<Rightarrow>
          (case dp_loop fds' s' es of (ev', out) \<Rightarrow> (ev @ ev', out)))"

text \<open>
  Lines 80 to 183. After dialling the process forks: the parent returns 0, a failed
  \<^verbatim>\<open>fork\<close> returns 20, and the child (\<^verbatim>\<open>fork\<close> returned 0) goes on into the loop.
\<close>

definition dp_main :: "string list \<Rightarrow> env \<Rightarrow> locals \<Rightarrow> syscall list \<times> outcome" where
  "dp_main argv e s0 =
     (if 5 \<noteq> int (length argv) then ([Fprintf ''Usage''], Exited 30)
      else
        (case dp_for 0 argv e (open_fds e) (s0\<lparr>maxsock := 0\<rparr>) of
           (ev, Return st) \<Rightarrow> (ev, Exited st)
         | (ev, Next fds s) \<Rightarrow>
             (let i = fork_ret e in
              if i = -1 then (ev @ [Fork i, Perror ''fork''], Exited 20)
              else if i > 0 then (ev @ [Fork i], Exited 0)
              else
                (case dp_loop fds s (script e) of
                   (ev', out) \<Rightarrow> (ev @ [Fork i, Setsid] @ ev', out)))))"

subsection \<open>Reading the events of a run\<close>

text \<open>
  The vocabulary of the theorems: the bytes of the reads that returned a positive
  count and the bytes handed to the writes, each with its descriptor; for a descriptor
  in \<^verbatim>\<open>sockfd\<close>, the other element; the set \<^verbatim>\<open>select\<close> is called on; and the
  descriptor table after both sockets have been closed.
\<close>

fun bytes_read :: "syscall \<Rightarrow> (SOCKET \<times> byte list) list" where
  "bytes_read (Recv fd len n d) = (if 0 < n then [(fd, d)] else [])"
| "bytes_read _ = []"

fun bytes_sent :: "syscall \<Rightarrow> (SOCKET \<times> byte list) list" where
  "bytes_sent (Send fd d k) = [(fd, d)]"
| "bytes_sent _ = []"

definition received :: "syscall list \<Rightarrow> (SOCKET \<times> byte list) list" where
  "received ev = concat (map bytes_read ev)"

definition written :: "syscall list \<Rightarrow> (SOCKET \<times> byte list) list" where
  "written ev = concat (map bytes_sent ev)"

definition peer :: "'a locals_scheme \<Rightarrow> SOCKET \<Rightarrow> SOCKET" where
  "peer s fd = (if fd = sockfd s 0 then sockfd s 1 else sockfd s 0)"

definition poll_set :: "'a locals_scheme \<Rightarrow> SOCKET list" where
  "poll_set s = [sockfd s 0, sockfd s 1]"

definition closed_both :: "int list \<Rightarrow> 'a locals_scheme \<Rightarrow> int list" where
  "closed_both fds s = os_close (os_close fds (sockfd s 0)) (sockfd s 1)"

text \<open>
  Names for what a pass of the dialling loop computes: the port in network order, the
  address (from \<^verbatim>\<open>inet_addr\<close>, or from \<^verbatim>\<open>gethostbyname\<close> when that gives
  \<^verbatim>\<open>INADDR_NONE\<close>), and the descriptor a successful \<^verbatim>\<open>socket\<close> returns.
\<close>

definition port_of :: "string list \<Rightarrow> nat \<Rightarrow> 16 word" where
  "port_of argv i = htons (to_ushort (atol (argv ! (2 + i * 2))))"

definition addr_of :: "env \<Rightarrow> string list \<Rightarrow> nat \<Rightarrow> 32 word option" where
  "addr_of e argv i =
     (if inet_addr e (argv ! (1 + i * 2)) = INADDR_NONE then gethostbyname e (argv ! (1 + i * 2))
      else Some (inet_addr e (argv ! (1 + i * 2))))"

definition new_fd :: "int list \<Rightarrow> int" where
  "new_fd fds = first_free fds 0 (length fds)"

text \<open>A read or a write that returned zero or less; the descriptors closed, in order.\<close>

fun io_failure :: "syscall \<Rightarrow> bool" where
  "io_failure (Recv fd len n d) = (n \<le> 0)"
| "io_failure (Send fd d k) = (k \<le> 0)"
| "io_failure _ = False"

definition io_failed :: "syscall list \<Rightarrow> bool" where
  "io_failed ev = list_ex io_failure ev"

fun closed_fd :: "syscall \<Rightarrow> SOCKET list" where
  "closed_fd (Close fd) = [fd]"
| "closed_fd _ = []"

definition closes :: "syscall list \<Rightarrow> SOCKET list" where
  "closes ev = concat (map closed_fd ev)"

text \<open>The descriptors read and the descriptors written, in order.\<close>

fun read_fd :: "syscall \<Rightarrow> SOCKET list" where
  "read_fd (Recv fd len n d) = [fd]"
| "read_fd _ = []"

fun write_fd :: "syscall \<Rightarrow> SOCKET list" where
  "write_fd (Send fd d k) = [fd]"
| "write_fd _ = []"

definition reads :: "syscall list \<Rightarrow> SOCKET list" where
  "reads ev = concat (map read_fd ev)"

definition writes :: "syscall list \<Rightarrow> SOCKET list" where
  "writes ev = concat (map write_fd ev)"

text \<open>A \<^verbatim>\<open>select\<close> that returned less than zero; the calls of \<^verbatim>\<open>select\<close> that returned.\<close>

fun select_failure :: "syscall \<Rightarrow> bool" where
  "select_failure (Select nfds fdsr r fdsr') = (r < 0)"
| "select_failure _ = False"

definition select_failed :: "syscall list \<Rightarrow> bool" where
  "select_failed ev = list_ex select_failure ev"

fun is_select :: "syscall \<Rightarrow> bool" where
  "is_select (Select nfds fdsr r fdsr') = True"
| "is_select _ = False"

definition selects :: "syscall list \<Rightarrow> nat" where
  "selects ev = length (filter is_select ev)"

text \<open>
  The two ways a run of the loop can end: it returned \<open>st\<close> and its last event is a
  \<^verbatim>\<open>select\<close> that failed, the only one that did; or it is still inside the loop and no
  \<^verbatim>\<open>select\<close> has failed.
\<close>

definition loop_exit :: "int \<Rightarrow> syscall list \<times> outcome \<Rightarrow> bool" where
  "loop_exit st x =
     (case x of (ev, out) \<Rightarrow>
        (out = Exited st \<and>
           (\<exists>pre nfds fdsr r fdsr'. ev = pre @ [Select nfds fdsr r fdsr'] \<and> r < 0 \<and>
              \<not> select_failed pre)) \<or>
        (out = Waiting \<and> \<not> select_failed ev))"

text \<open>
  The reads and writes of a run respect the buffer: every read asks for 4096 bytes; a
  read that returned \<open>n > 0\<close> has \<open>n \<le> 4096\<close>, stored \<open>n\<close> bytes, and is followed at once
  by the write of exactly those bytes; any other read returned zero or less and
  stored nothing; and there is no write anywhere else.
\<close>

fun bounded_io :: "syscall list \<Rightarrow> bool" where
  "bounded_io [] = True"
| "bounded_io (Recv fd len n d # Send fd' d' k # ev) =
     (len = 4096 \<and> 1 \<le> n \<and> n \<le> 4096 \<and> int (length d) = n \<and> d' = d \<and> bounded_io ev)"
| "bounded_io (Recv fd len n d # ev) = (len = 4096 \<and> n \<le> 0 \<and> d = [] \<and> bounded_io ev)"
| "bounded_io (Send fd d k # ev) = False"
| "bounded_io (x # ev) = bounded_io ev"

text \<open>
  What the writes of a run have taken: of the bytes handed to a \<^verbatim>\<open>write\<close> that
  returned \<open>k > 0\<close>, the first \<open>k\<close>. A write is complete when it took all its bytes.
\<close>

fun bytes_taken :: "syscall \<Rightarrow> (SOCKET \<times> byte list) list" where
  "bytes_taken (Send fd d k) = (if 0 < k then [(fd, take (nat k) d)] else [])"
| "bytes_taken _ = []"

definition delivered :: "syscall list \<Rightarrow> (SOCKET \<times> byte list) list" where
  "delivered ev = concat (map bytes_taken ev)"

fun complete_write :: "syscall \<Rightarrow> bool" where
  "complete_write (Send fd d k) = (k = int (length d))"
| "complete_write _ = True"

text \<open>
  The errors of one pass of the dialling loop after which \<^verbatim>\<open>main\<close> returns: the port is
  zero, the host does not resolve, or \<^verbatim>\<open>socket\<close> fails.
\<close>

definition dial_fatal :: "string list \<Rightarrow> env \<Rightarrow> nat \<Rightarrow> bool" where
  "dial_fatal argv e i = (port_of argv i = 0 \<or> addr_of e argv i = None \<or> \<not> socket_ok e i)"

subsection \<open>Example runs\<close>

text \<open>
  Concrete states and environments on which the theorems below are instantiated:
  descriptors 0, 1 and 2 are open at the start, the two sockets are 3 and 4.
\<close>

definition ex_fds :: "int list" where
  "ex_fds = [4, 3, 0, 1, 2]"

definition ex_rdp :: rdp_locals where
  "ex_rdp = \<lparr>buf = replicate 4096 0, sockfd = (\<lambda>i. if i = 0 then 3 else 4), maxsock = 4,
     nbyt = 0, closeneeded = 0\<rparr>"

definition ex_dp :: locals where
  "ex_dp = \<lparr>buf = replicate 4096 0, sockfd = (\<lambda>i. if i = 0 then 3 else 4), maxsock = 4\<rparr>"

text \<open>Both sockets are readable, two bytes arrive and the write takes both.\<close>

definition ex_pass :: iter_env where
  "ex_pass = \<lparr>on_select = SelectReady [3, 4], on_recv = RecvBytes [104, 105],
     on_send = SendTakes 2\<rparr>"

text \<open>Only the second socket is readable.\<close>

definition ex_back :: iter_env where
  "ex_back = \<lparr>on_select = SelectReady [4], on_recv = RecvBytes [111, 107, 33],
     on_send = SendTakes 3\<rparr>"

text \<open>The write takes one byte of two.\<close>

definition ex_short :: iter_env where
  "ex_short = \<lparr>on_select = SelectReady [3], on_recv = RecvBytes [104, 105],
     on_send = SendTakes 1\<rparr>"

text \<open>End of stream on the first socket; a read error; a failing write.\<close>

definition ex_eof :: iter_env where
  "ex_eof = \<lparr>on_select = SelectReady [3], on_recv = RecvBytes [], on_send = SendTakes 0\<rparr>"

definition ex_rfail :: iter_env where
  "ex_rfail = \<lparr>on_select = SelectReady [4], on_recv = RecvFails, on_send = SendTakes 0\<rparr>"

definition ex_wfail :: iter_env where
  "ex_wfail = \<lparr>on_select = SelectReady [3], on_recv = RecvBytes [104, 105],
     on_send = SendFails\<rparr>"

text \<open>
  The first \<^verbatim>\<open>connect\<close> is refused and the second succeeds; then the socket is
  readable, two bytes arrive and the write takes both.
\<close>

definition ex_argv :: "string list" where
  "ex_argv = [''datapipe'', ''10.0.0.1'', ''80'', ''10.0.0.2'', ''81'']"

definition ex_echo :: iter_env where
  "ex_echo = \<lparr>on_select = SelectReady [3], on_recv = RecvBytes [104, 105],
     on_send = SendTakes 2\<rparr>"

definition ex_env :: env where
  "ex_env = \<lparr>open_fds = [0, 1, 2],
     inet_addr = (\<lambda>h. if h = ''10.0.0.1'' then 0x0100000A else 0x0200000A),
     gethostbyname = (\<lambda>h. None), socket_ok = (\<lambda>i. True),
     connect_ret = (\<lambda>i. if i = 0 then -1 else 0), fork_ret = 0, script = [ex_echo]\<rparr>"




text \<open>
  Comparing the two programs: a state of revdatapipe.c without \<^verbatim>\<open>nbyt\<close> and
  \<^verbatim>\<open>closeneeded\<close> is a state of datapipe.c (\<open>locals.truncate\<close>); \<^verbatim>\<open>Fork\<close> and
  \<^verbatim>\<open>Setsid\<close> are the events only datapipe.c has; and the return values correspond as
  30, 25 or -1 in datapipe.c to -1 in revdatapipe.c.
\<close>

fun dp_result :: "int \<Rightarrow> rdp_locals result \<Rightarrow> locals result" where
  "dp_result st (Return x) = Return st"
| "dp_result st (Next fds s) = Next fds (locals.truncate s)"

fun dp_outcome :: "outcome \<Rightarrow> outcome" where
  "dp_outcome (Exited st) = Exited 30"
| "dp_outcome Waiting = Waiting"

fun dp_only :: "syscall \<Rightarrow> bool" where
  "dp_only (Fork i) = True"
| "dp_only Setsid = True"
| "dp_only _ = False"

definition without_fork :: "syscall list \<Rightarrow> syscall list" where
  "without_fork ev = filter (\<lambda>x. \<not> dp_only x) ev"

fun setup_agree :: "locals result \<Rightarrow> rdp_locals result \<Rightarrow> bool" where
  "setup_agree (Return a) (Return b) = (b = -1 \<and> (a = 25 \<or> a = -1))"
| "setup_agree (Next f t) (Next f' s) = (f = f' \<and> t = locals.truncate s)"
| "setup_agree _ _ = False"

fun status_agree :: "outcome \<Rightarrow> outcome \<Rightarrow> bool" where
  "status_agree (Exited a) (Exited b) = (b = -1 \<and> (a = 30 \<or> a = 25 \<or> a = -1))"
| "status_agree Waiting Waiting = True"
| "status_agree _ _ = False"

text \<open>Both connects succeed, two bytes are copied, then the first peer closes.\<close>

definition ex_env_end :: env where
  "ex_env_end = \<lparr>open_fds = [0, 1, 2],
     inet_addr = (\<lambda>h. if h = ''10.0.0.1'' then 0x0100000A else 0x0200000A),
     gethostbyname = (\<lambda>h. None), socket_ok = (\<lambda>i. True),
     connect_ret = (\<lambda>i. 0), fork_ret = 0, script = [ex_pass, ex_eof]\<rparr>"

section \<open>Basic facts\<close>

lemma os_recv_bound:
  "os_recv fds fd b len out = (n, b') \<Longrightarrow> n \<le> int len \<and> (0 < n \<longrightarrow> length (take (nat n) b') = nat n)"
  by (auto simp: os_recv_def Let_def split: if_splits recv_out.splits)

lemma os_recv_take:
  "os_recv fds fd b len out = (n, b') \<Longrightarrow> 0 < n \<Longrightarrow>
     \<exists>d. out = RecvBytes d \<and> take (nat n) b' = take len d \<and> fd \<in> set fds"
  by (auto simp: os_recv_def Let_def min_def split: if_splits recv_out.splits)

lemma os_recv_length:
  "os_recv fds fd b len out = (n, b') \<Longrightarrow> len \<le> length b \<Longrightarrow> length b' = length b"
  by (auto simp: os_recv_def Let_def split: if_splits recv_out.splits)

lemma os_send_bound: "os_send fds fd d out \<le> int (length d)"
  by (auto simp: os_send_def split: send_out.splits)

lemma recv_or_send_cases:
  obtains (stop) n b' where "n \<le> 0"
      "recv_or_send fds src dst b e = ([Recv src sizeof_buf n []], b', n, True)"
    | (copy) n b' k where "0 < n" "n \<le> int sizeof_buf" "length (take (nat n) b') = nat n"
      "k \<le> n"
      "recv_or_send fds src dst b e =
         ([Recv src sizeof_buf n (take (nat n) b'), Send dst (take (nat n) b') k], b', n, k \<le> 0)"
proof (cases "os_recv fds src b sizeof_buf (on_recv e)")
  case (Pair n b')
  show thesis
  proof (cases "n \<le> 0")
    case True
    with Pair stop show thesis by (simp add: recv_or_send_def)
  next
    case False
    from os_recv_bound[OF Pair] False
    have b: "n \<le> int sizeof_buf" "length (take (nat n) b') = nat n" by auto
    have "os_send fds dst (take (nat n) b') (on_send e) \<le> n"
      using os_send_bound[of fds dst "take (nat n) b'" "on_send e"] b(2) False by linarith
    with Pair False b copy show thesis by (simp add: recv_or_send_def Let_def)
  qed
qed

lemma recv_or_send_length:
  "recv_or_send fds src dst b e = (ev, b', n, c) \<Longrightarrow> sizeof_buf \<le> length b \<Longrightarrow> length b' = length b"
  by (auto simp: recv_or_send_def Let_def split: prod.splits if_splits dest: os_recv_length)

lemma rdp_service_cases:
  obtains
    (none) "\<not> FD_ISSET (sockfd s 0) fdsr" "\<not> FD_ISSET (sockfd s 1) fdsr"
      "rdp_service fds s fdsr e = ([], s)"
  | (stop) i n b' where "i < 2" "FD_ISSET (sockfd s i) fdsr"
      "i = 1 \<longrightarrow> \<not> FD_ISSET (sockfd s 0) fdsr" "n \<le> 0"
      "rdp_service fds s fdsr e =
         ([Recv (sockfd s i) sizeof_buf n []], s\<lparr>buf := b', nbyt := n, closeneeded := 1\<rparr>)"
  | (copy) i n b' k where "i < 2" "FD_ISSET (sockfd s i) fdsr"
      "i = 1 \<longrightarrow> \<not> FD_ISSET (sockfd s 0) fdsr"
      "0 < n" "n \<le> int sizeof_buf" "length (take (nat n) b') = nat n" "k \<le> n"
      "rdp_service fds s fdsr e =
         ([Recv (sockfd s i) sizeof_buf n (take (nat n) b'),
           Send (sockfd s (1 - i)) (take (nat n) b') k],
          if k \<le> 0 then s\<lparr>buf := b', nbyt := n, closeneeded := 1\<rparr>
          else s\<lparr>buf := b', nbyt := n\<rparr>)"
proof (cases "FD_ISSET (sockfd s 0) fdsr")
  case True
  show thesis
  proof (cases rule: recv_or_send_cases[of fds "sockfd s 0" "sockfd s 1" "buf s" e])
    case (stop n b')
    with True show thesis
      using that(2)[of 0 n b'] by (simp add: rdp_service_def)
  next
    case (copy n b' k)
    with True show thesis
      using that(3)[of 0 n b' k] by (simp add: rdp_service_def)
  qed
next
  case False
  show thesis
  proof (cases "FD_ISSET (sockfd s 1) fdsr")
    case no: False
    with False that(1) show thesis by (simp add: rdp_service_def)
  next
    case True
    show thesis
    proof (cases rule: recv_or_send_cases[of fds "sockfd s 1" "sockfd s 0" "buf s" e])
      case (stop n b')
      with True False show thesis
        using that(2)[of 1 n b'] by (simp add: rdp_service_def)
    next
      case (copy n b' k)
      with True False show thesis
        using that(3)[of 1 n b' k] by (simp add: rdp_service_def)
    qed
  qed
qed

lemma poll_set_eq: "FD_SET (sockfd s 1) (FD_SET (sockfd s 0) FD_ZERO) = poll_set s"
  by (simp add: FD_SET_def FD_ZERO_def poll_set_def)

lemma os_select_cases:
  obtains (blocks) "\<not> bad_descriptor fds nfds fdsr" "out = SelectBlocks"
      "os_select fds nfds fdsr out = None"
    | (fails) "bad_descriptor fds nfds fdsr \<or> out = SelectFails"
      "os_select fds nfds fdsr out = Some (-1, fdsr)"
    | (ready) r fdsr' where "\<not> bad_descriptor fds nfds fdsr" "0 \<le> r"
      "os_select fds nfds fdsr out = Some (r, fdsr')"
  by (cases out) (auto simp: os_select_def Let_def)

lemma rdp_iteration_unfold:
  "rdp_iteration fds s e =
     (case os_select fds (maxsock s + 1) (poll_set s) (on_select e) of
        None \<Rightarrow> ([], None)
      | Some (r, fdsr') \<Rightarrow>
          if r < 0 then ([Select (maxsock s + 1) (poll_set s) r fdsr'], Some (Return (-1)))
          else
            (case rdp_service fds (s\<lparr>nbyt := 0, closeneeded := 0\<rparr>) fdsr' e of
               (ev, s') \<Rightarrow>
                 if closeneeded s' \<noteq> 0
                 then (Select (maxsock s + 1) (poll_set s) r fdsr' # ev @
                         [Close (sockfd s' 0), Close (sockfd s' 1)],
                       Some (Next (closed_both fds s') s'))
                 else (Select (maxsock s + 1) (poll_set s) r fdsr' # ev, Some (Next fds s'))))"
  unfolding rdp_iteration_def Let_def poll_set_eq closed_both_def ..

lemma rdp_iteration_cases:
  obtains
    (blocks) "\<not> bad_descriptor fds (maxsock s + 1) (poll_set s)" "on_select e = SelectBlocks"
      "rdp_iteration fds s e = ([], None)"
  | (fails) "bad_descriptor fds (maxsock s + 1) (poll_set s) \<or> on_select e = SelectFails"
      "rdp_iteration fds s e =
         ([Select (maxsock s + 1) (poll_set s) (-1) (poll_set s)], Some (Return (-1)))"
  | (idle) r fdsr' where "0 \<le> r" "\<not> bad_descriptor fds (maxsock s + 1) (poll_set s)"
      "\<not> FD_ISSET (sockfd s 0) fdsr'" "\<not> FD_ISSET (sockfd s 1) fdsr'"
      "rdp_iteration fds s e =
         ([Select (maxsock s + 1) (poll_set s) r fdsr'],
          Some (Next fds (s\<lparr>nbyt := 0, closeneeded := 0\<rparr>)))"
  | (stop) r fdsr' i n b' where "0 \<le> r" "\<not> bad_descriptor fds (maxsock s + 1) (poll_set s)"
      "i < 2" "FD_ISSET (sockfd s i) fdsr'" "i = 1 \<longrightarrow> \<not> FD_ISSET (sockfd s 0) fdsr'"
      "n \<le> 0"
      "rdp_iteration fds s e =
         ([Select (maxsock s + 1) (poll_set s) r fdsr', Recv (sockfd s i) sizeof_buf n [],
           Close (sockfd s 0), Close (sockfd s 1)],
          Some (Next (closed_both fds s) (s\<lparr>buf := b', nbyt := n, closeneeded := 1\<rparr>)))"
  | (wfail) r fdsr' i n b' k where "0 \<le> r" "\<not> bad_descriptor fds (maxsock s + 1) (poll_set s)"
      "i < 2" "FD_ISSET (sockfd s i) fdsr'" "i = 1 \<longrightarrow> \<not> FD_ISSET (sockfd s 0) fdsr'"
      "0 < n" "n \<le> int sizeof_buf" "length (take (nat n) b') = nat n" "k \<le> 0"
      "rdp_iteration fds s e =
         ([Select (maxsock s + 1) (poll_set s) r fdsr',
           Recv (sockfd s i) sizeof_buf n (take (nat n) b'),
           Send (sockfd s (1 - i)) (take (nat n) b') k,
           Close (sockfd s 0), Close (sockfd s 1)],
          Some (Next (closed_both fds s) (s\<lparr>buf := b', nbyt := n, closeneeded := 1\<rparr>)))"
  | (copy) r fdsr' i n b' k where "0 \<le> r" "\<not> bad_descriptor fds (maxsock s + 1) (poll_set s)"
      "i < 2" "FD_ISSET (sockfd s i) fdsr'" "i = 1 \<longrightarrow> \<not> FD_ISSET (sockfd s 0) fdsr'"
      "0 < n" "n \<le> int sizeof_buf" "length (take (nat n) b') = nat n" "0 < k" "k \<le> n"
      "rdp_iteration fds s e =
         ([Select (maxsock s + 1) (poll_set s) r fdsr',
           Recv (sockfd s i) sizeof_buf n (take (nat n) b'),
           Send (sockfd s (1 - i)) (take (nat n) b') k],
          Some (Next fds (s\<lparr>buf := b', nbyt := n, closeneeded := 0\<rparr>)))"
proof (cases rule: os_select_cases[of fds "maxsock s + 1" "poll_set s" "on_select e"])
  case blocks
  then show thesis using that(1)
    by (simp add: rdp_iteration_unfold)
next
  case fails
  then show thesis using that(2)
    by (simp add: rdp_iteration_unfold)
next
  case (ready r fdsr')
  let ?s = "s\<lparr>nbyt := 0, closeneeded := 0\<rparr>"
  have sf: "sockfd ?s = sockfd s" by simp
  show thesis
  proof (cases rule: rdp_service_cases[of ?s fdsr' fds e])
    case none
    with ready show thesis using that(3)[of r fdsr']
      by (simp add: rdp_iteration_unfold)
  next
    case (stop i n b')
    with ready show thesis using that(4)[of r i fdsr' n b']
      by (simp add: rdp_iteration_unfold closed_both_def)
  next
    case (copy i n b' k)
    show thesis
    proof (cases "k \<le> 0")
      case True
      with copy ready show thesis using that(5)[of r i fdsr' n b' k]
        by (simp add: rdp_iteration_unfold closed_both_def)
    next
      case False
      with copy ready show thesis using that(6)[of r i fdsr' n b' k]
        by (simp add: rdp_iteration_unfold closed_both_def)
    qed
  qed
qed

lemma dp_service_cases:
  obtains
    (none) "\<not> FD_ISSET (sockfd s 0) fdsr" "\<not> FD_ISSET (sockfd s 1) fdsr"
      "dp_service fds s fdsr e = ([], s, 0)"
  | (stop) i n b' where "i < 2" "FD_ISSET (sockfd s i) fdsr"
      "i = 1 \<longrightarrow> \<not> FD_ISSET (sockfd s 0) fdsr" "n \<le> 0"
      "dp_service fds s fdsr e =
         ([Recv (sockfd s i) sizeof_buf n []], s\<lparr>buf := b'\<rparr>, 1)"
  | (copy) i n b' k where "i < 2" "FD_ISSET (sockfd s i) fdsr"
      "i = 1 \<longrightarrow> \<not> FD_ISSET (sockfd s 0) fdsr"
      "0 < n" "n \<le> int sizeof_buf" "length (take (nat n) b') = nat n" "k \<le> n"
      "dp_service fds s fdsr e =
         ([Recv (sockfd s i) sizeof_buf n (take (nat n) b'),
           Send (sockfd s (1 - i)) (take (nat n) b') k],
          s\<lparr>buf := b'\<rparr>, if k \<le> 0 then 1 else 0)"
proof (cases "FD_ISSET (sockfd s 0) fdsr")
  case True
  show thesis
  proof (cases rule: recv_or_send_cases[of fds "sockfd s 0" "sockfd s 1" "buf s" e])
    case (stop n b')
    with True show thesis
      using that(2)[of 0 n b'] by (simp add: dp_service_def)
  next
    case (copy n b' k)
    with True show thesis
      using that(3)[of 0 n b' k] by (simp add: dp_service_def)
  qed
next
  case False
  show thesis
  proof (cases "FD_ISSET (sockfd s 1) fdsr")
    case no: False
    with False that(1) show thesis by (simp add: dp_service_def)
  next
    case True
    show thesis
    proof (cases rule: recv_or_send_cases[of fds "sockfd s 1" "sockfd s 0" "buf s" e])
      case (stop n b')
      with True False show thesis
        using that(2)[of 1 n b'] by (simp add: dp_service_def)
    next
      case (copy n b' k)
      with True False show thesis
        using that(3)[of 1 n b' k] by (simp add: dp_service_def)
    qed
  qed
qed

lemma dp_iteration_unfold:
  "dp_iteration fds s e =
     (case os_select fds (maxsock s + 1) (poll_set s) (on_select e) of
        None \<Rightarrow> ([], None)
      | Some (r, fdsr') \<Rightarrow>
          if r < 0 then ([Select (maxsock s + 1) (poll_set s) r fdsr'], Some (Return 30))
          else
            (case dp_service fds s fdsr' e of
               (ev, s', cn) \<Rightarrow>
                 if cn \<noteq> 0
                 then (Select (maxsock s + 1) (poll_set s) r fdsr' # ev @
                         [Close (sockfd s' 0), Close (sockfd s' 1)],
                       Some (Next (closed_both fds s') s'))
                 else (Select (maxsock s + 1) (poll_set s) r fdsr' # ev, Some (Next fds s'))))"
  unfolding dp_iteration_def Let_def poll_set_eq closed_both_def ..

lemma dp_iteration_cases:
  obtains
    (blocks) "\<not> bad_descriptor fds (maxsock s + 1) (poll_set s)" "on_select e = SelectBlocks"
      "dp_iteration fds s e = ([], None)"
  | (fails) "bad_descriptor fds (maxsock s + 1) (poll_set s) \<or> on_select e = SelectFails"
      "dp_iteration fds s e =
         ([Select (maxsock s + 1) (poll_set s) (-1) (poll_set s)], Some (Return 30))"
  | (idle) r fdsr' where "0 \<le> r" "\<not> bad_descriptor fds (maxsock s + 1) (poll_set s)"
      "\<not> FD_ISSET (sockfd s 0) fdsr'" "\<not> FD_ISSET (sockfd s 1) fdsr'"
      "dp_iteration fds s e =
         ([Select (maxsock s + 1) (poll_set s) r fdsr'],
          Some (Next fds s))"
  | (stop) r fdsr' i n b' where "0 \<le> r" "\<not> bad_descriptor fds (maxsock s + 1) (poll_set s)"
      "i < 2" "FD_ISSET (sockfd s i) fdsr'" "i = 1 \<longrightarrow> \<not> FD_ISSET (sockfd s 0) fdsr'"
      "n \<le> 0"
      "dp_iteration fds s e =
         ([Select (maxsock s + 1) (poll_set s) r fdsr', Recv (sockfd s i) sizeof_buf n [],
           Close (sockfd s 0), Close (sockfd s 1)],
          Some (Next (closed_both fds s) (s\<lparr>buf := b'\<rparr>)))"
  | (wfail) r fdsr' i n b' k where "0 \<le> r" "\<not> bad_descriptor fds (maxsock s + 1) (poll_set s)"
      "i < 2" "FD_ISSET (sockfd s i) fdsr'" "i = 1 \<longrightarrow> \<not> FD_ISSET (sockfd s 0) fdsr'"
      "0 < n" "n \<le> int sizeof_buf" "length (take (nat n) b') = nat n" "k \<le> 0"
      "dp_iteration fds s e =
         ([Select (maxsock s + 1) (poll_set s) r fdsr',
           Recv (sockfd s i) sizeof_buf n (take (nat n) b'),
           Send (sockfd s (1 - i)) (take (nat n) b') k,
           Close (sockfd s 0), Close (sockfd s 1)],
          Some (Next (closed_both fds s) (s\<lparr>buf := b'\<rparr>)))"
  | (copy) r fdsr' i n b' k where "0 \<le> r" "\<not> bad_descriptor fds (maxsock s + 1) (poll_set s)"
      "i < 2" "FD_ISSET (sockfd s i) fdsr'" "i = 1 \<longrightarrow> \<not> FD_ISSET (sockfd s 0) fdsr'"
      "0 < n" "n \<le> int sizeof_buf" "length (take (nat n) b') = nat n" "0 < k" "k \<le> n"
      "dp_iteration fds s e =
         ([Select (maxsock s + 1) (poll_set s) r fdsr',
           Recv (sockfd s i) sizeof_buf n (take (nat n) b'),
           Send (sockfd s (1 - i)) (take (nat n) b') k],
          Some (Next fds (s\<lparr>buf := b'\<rparr>)))"
proof (cases rule: os_select_cases[of fds "maxsock s + 1" "poll_set s" "on_select e"])
  case blocks
  then show thesis using that(1)
    by (simp add: dp_iteration_unfold)
next
  case fails
  then show thesis using that(2)
    by (simp add: dp_iteration_unfold)
next
  case (ready r fdsr')
  show thesis
  proof (cases rule: dp_service_cases[of s fdsr' fds e])
    case none
    with ready show thesis using that(3)[of r fdsr']
      by (simp add: dp_iteration_unfold)
  next
    case (stop i n b')
    with ready show thesis using that(4)[of r i fdsr' n b']
      by (simp add: dp_iteration_unfold closed_both_def)
  next
    case (copy i n b' k)
    show thesis
    proof (cases "k \<le> 0")
      case True
      with copy ready show thesis using that(5)[of r i fdsr' n b' k]
        by (simp add: dp_iteration_unfold closed_both_def)
    next
      case False
      with copy ready show thesis using that(6)[of r i fdsr' n b' k]
        by (simp add: dp_iteration_unfold closed_both_def)
    qed
  qed
qed

lemma rdp_loop_Nil:
  "rdp_iteration fds s idle = (ev, r) \<Longrightarrow>
     rdp_loop fds s [] = (ev, case r of Some (Return st) \<Rightarrow> Exited st | _ \<Rightarrow> Waiting)"
  by (simp split: option.split result.split)

lemma rdp_loop_block:
  "rdp_iteration fds s e = (ev, None) \<Longrightarrow> rdp_loop fds s (e # es) = (ev, Waiting)"
  by simp

lemma rdp_loop_exit:
  "rdp_iteration fds s e = (ev, Some (Return st)) \<Longrightarrow> rdp_loop fds s (e # es) = (ev, Exited st)"
  by simp

lemma rdp_loop_next:
  "rdp_iteration fds s e = (ev, Some (Next fds' s')) \<Longrightarrow>
     rdp_loop fds s (e # es) = (ev @ fst (rdp_loop fds' s' es), snd (rdp_loop fds' s' es))"
  by (simp split: prod.split)

lemma dp_loop_Nil:
  "dp_iteration fds s idle = (ev, r) \<Longrightarrow>
     dp_loop fds s [] = (ev, case r of Some (Return st) \<Rightarrow> Exited st | _ \<Rightarrow> Waiting)"
  by (simp split: option.split result.split)

lemma dp_loop_block:
  "dp_iteration fds s e = (ev, None) \<Longrightarrow> dp_loop fds s (e # es) = (ev, Waiting)"
  by simp

lemma dp_loop_exit:
  "dp_iteration fds s e = (ev, Some (Return st)) \<Longrightarrow> dp_loop fds s (e # es) = (ev, Exited st)"
  by simp

lemma dp_loop_next:
  "dp_iteration fds s e = (ev, Some (Next fds' s')) \<Longrightarrow>
     dp_loop fds s (e # es) = (ev @ fst (dp_loop fds' s' es), snd (dp_loop fds' s' es))"
  by (simp split: prod.split)

declare rdp_loop.simps [simp del] dp_loop.simps [simp del]

lemma received_append [simp]: "received (a @ b) = received a @ received b"
  by (simp add: received_def)

lemma written_append [simp]: "written (a @ b) = written a @ written b"
  by (simp add: written_def)

lemma peer_of:
  "i < 2 \<Longrightarrow> FD_ISSET (sockfd s i) fdsr \<Longrightarrow> (i = 1 \<longrightarrow> \<not> FD_ISSET (sockfd s 0) fdsr) \<Longrightarrow>
     peer s (sockfd s i) = sockfd s (1 - i)"
  by (cases "i = 0") (auto simp: peer_def)

lemma peer_cong: "sockfd s' = sockfd s \<Longrightarrow> peer s' = peer s"
  by (simp add: peer_def fun_eq_iff)

lemma rdp_iteration_written:
  assumes "rdp_iteration fds s e = (ev, r)"
  shows "written ev = map (\<lambda>(fd, d). (peer s fd, d)) (received ev)"
  using assms
  by (cases rule: rdp_iteration_cases[of fds s e])
     (auto simp: written_def received_def peer_of)

lemma rdp_iteration_frame:
  assumes "rdp_iteration fds s e = (ev, Some (Next fds' s'))"
  shows "sockfd s' = sockfd s \<and> maxsock s' = maxsock s"
  using assms
  by (cases rule: rdp_iteration_cases[of fds s e]) auto

lemma dp_iteration_written:
  assumes "dp_iteration fds s e = (ev, r)"
  shows "written ev = map (\<lambda>(fd, d). (peer s fd, d)) (received ev)"
  using assms
  by (cases rule: dp_iteration_cases[of fds s e])
     (auto simp: written_def received_def peer_of)

lemma dp_iteration_frame:
  assumes "dp_iteration fds s e = (ev, Some (Next fds' s'))"
  shows "sockfd s' = sockfd s \<and> maxsock s' = maxsock s"
  using assms
  by (cases rule: dp_iteration_cases[of fds s e]) auto

lemma rdp_loop_written:
  "written (fst (rdp_loop fds s sc)) =
     map (\<lambda>(fd, d). (peer s fd, d)) (received (fst (rdp_loop fds s sc)))"
proof (induction sc arbitrary: fds s)
  case Nil
  obtain ev r where it: "rdp_iteration fds s idle = (ev, r)" by (cases "rdp_iteration fds s idle")
  show ?case
    unfolding rdp_loop_Nil[OF it] fst_conv by (rule rdp_iteration_written[OF it])
next
  case (Cons e es)
  obtain ev r where it: "rdp_iteration fds s e = (ev, r)" by (cases "rdp_iteration fds s e")
  note w = rdp_iteration_written[OF it]
  show ?case
  proof (cases r)
    case None
    with it have "rdp_loop fds s (e # es) = (ev, Waiting)" by (simp only: rdp_loop_block)
    with w show ?thesis by (simp only: fst_conv)
  next
    case (Some x)
    show ?thesis
    proof (cases x)
      case (Return st)
      with Some it have "rdp_loop fds s (e # es) = (ev, Exited st)" by (simp only: rdp_loop_exit)
      with w show ?thesis by (simp only: fst_conv)
    next
      case (Next fds' s')
      with Some it have it': "rdp_iteration fds s e = (ev, Some (Next fds' s'))" by simp
      have p: "peer s' = peer s" using rdp_iteration_frame[OF it'] by (intro peer_cong) simp
      have "written (fst (rdp_loop fds' s' es)) =
              map (\<lambda>(fd, d). (peer s fd, d)) (received (fst (rdp_loop fds' s' es)))"
        using Cons.IH[of fds' s'] p by simp
      with w show ?thesis
        unfolding rdp_loop_next[OF it'] fst_conv by simp
    qed
  qed
qed

lemma dp_loop_written:
  "written (fst (dp_loop fds s sc)) =
     map (\<lambda>(fd, d). (peer s fd, d)) (received (fst (dp_loop fds s sc)))"
proof (induction sc arbitrary: fds s)
  case Nil
  obtain ev r where it: "dp_iteration fds s idle = (ev, r)" by (cases "dp_iteration fds s idle")
  show ?case
    unfolding dp_loop_Nil[OF it] fst_conv by (rule dp_iteration_written[OF it])
next
  case (Cons e es)
  obtain ev r where it: "dp_iteration fds s e = (ev, r)" by (cases "dp_iteration fds s e")
  note w = dp_iteration_written[OF it]
  show ?case
  proof (cases r)
    case None
    with it have "dp_loop fds s (e # es) = (ev, Waiting)" by (simp only: dp_loop_block)
    with w show ?thesis by (simp only: fst_conv)
  next
    case (Some x)
    show ?thesis
    proof (cases x)
      case (Return st)
      with Some it have "dp_loop fds s (e # es) = (ev, Exited st)" by (simp only: dp_loop_exit)
      with w show ?thesis by (simp only: fst_conv)
    next
      case (Next fds' s')
      with Some it have it': "dp_iteration fds s e = (ev, Some (Next fds' s'))" by simp
      have p: "peer s' = peer s" using dp_iteration_frame[OF it'] by (intro peer_cong) simp
      have "written (fst (dp_loop fds' s' es)) =
              map (\<lambda>(fd, d). (peer s fd, d)) (received (fst (dp_loop fds' s' es)))"
        using Cons.IH[of fds' s'] p by simp
      with w show ?thesis
        unfolding dp_loop_next[OF it'] fst_conv by simp
    qed
  qed
qed

section \<open>Byte fidelity\<close>

lemma rdp_iteration_recv:
  assumes "rdp_iteration fds s e = (ev, r)" "Recv src len n d \<in> set ev" "0 < n"
  shows "(\<exists>fds' s'. r = Some (Next fds' s') \<and> d = take (nat n) (buf s')) \<and>
         int (length d) = n \<and> written ev = [(peer s src, d)]"
  using assms
  by (cases rule: rdp_iteration_cases[of fds s e])
     (auto simp: written_def peer_of)

lemma dp_iteration_recv:
  assumes "dp_iteration fds s e = (ev, r)" "Recv src len n d \<in> set ev" "0 < n"
  shows "(\<exists>fds' s'. r = Some (Next fds' s') \<and> d = take (nat n) (buf s')) \<and>
         int (length d) = n \<and> written ev = [(peer s src, d)]"
  using assms
  by (cases rule: dp_iteration_cases[of fds s e])
     (auto simp: written_def peer_of)

lemmas model_defs = rdp_iteration_def dp_iteration_def rdp_service_def dp_service_def
  recv_or_send_def os_select_def os_recv_def os_send_def os_close_def bad_descriptor_def
  FD_SET_def FD_ZERO_def FD_ISSET_def sizeof_buf_def idle_def Let_def

lemmas example_defs = ex_fds_def ex_rdp_def ex_dp_def ex_pass_def ex_back_def ex_short_def
  ex_eof_def ex_rfail_def ex_wfail_def


section \<open>Dialling\<close>

lemma first_free_ge: "k \<le> first_free fds k n"
proof (induction n arbitrary: k)
  case 0
  show ?case by simp
next
  case (Suc n)
  from Suc[of "k + 1"] show ?case by simp
qed

lemma first_free_fresh:
  "card {x \<in> set fds. k \<le> x} \<le> n \<Longrightarrow> first_free fds k n \<notin> set fds"
proof (induction n arbitrary: k)
  case 0
  then have "{x \<in> set fds. k \<le> x} = {}" by simp
  then show ?case by auto
next
  case (Suc n)
  show ?case
  proof (cases "k \<in> set fds")
    case False
    then show ?thesis by simp
  next
    case True
    have eq: "{x \<in> set fds. k \<le> x} = insert k {x \<in> set fds. k + 1 \<le> x}"
      using True by auto
    have "k \<notin> {x \<in> set fds. k + 1 \<le> x}" by simp
    then have "card {x \<in> set fds. k \<le> x} = Suc (card {x \<in> set fds. k + 1 \<le> x})"
      unfolding eq by simp
    with Suc.prems have "card {x \<in> set fds. k + 1 \<le> x} \<le> n" by simp
    from Suc.IH[OF this] True show ?thesis by simp
  qed
qed

lemma new_fd_fresh: "new_fd fds \<notin> set fds"
proof -
  have "card {x \<in> set fds. 0 \<le> x} \<le> card (set fds)"
    by (rule card_mono) auto
  also have "\<dots> \<le> length fds" by (rule card_length)
  finally show ?thesis unfolding new_fd_def by (rule first_free_fresh)
qed

lemma new_fd_nonneg: "0 \<le> new_fd fds"
  unfolding new_fd_def by (rule first_free_ge)

lemma close_new_fd: "os_close (new_fd fds # fds) (new_fd fds) = fds"
  using new_fd_fresh[of fds] by (simp add: os_close_def)

lemma rdp_dial_unfold:
  "rdp_dial i argv e fds s =
     (if port_of argv i = 0 then ([Fprintf ''invalid target port''], Return (-1))
      else case addr_of e argv i of
        None \<Rightarrow> ([Perror ''gethostbyname''], Return (-1))
      | Some a \<Rightarrow>
          if \<not> socket_ok e i then ([Socket (-1), Perror ''socket''], Return (-1))
          else if connect_ret e i \<noteq> 0
          then ([Socket (new_fd fds), Connect (new_fd fds) (port_of argv i) a (connect_ret e i),
                 Perror ''connect'', Close (new_fd fds)],
                Next fds (s\<lparr>sockfd := (sockfd s)(i := new_fd fds),
                              maxsock := max (maxsock s) (new_fd fds)\<rparr>))
          else ([Socket (new_fd fds), Connect (new_fd fds) (port_of argv i) a 0],
                Next (new_fd fds # fds) (s\<lparr>sockfd := (sockfd s)(i := new_fd fds),
                              maxsock := max (maxsock s) (new_fd fds)\<rparr>)))"
  using new_fd_nonneg[of fds] close_new_fd[of fds]
  unfolding rdp_dial_def port_of_def addr_of_def new_fd_def
  by (auto simp: Let_def os_socket_def max_def split: option.splits)

lemma rdp_for_unfold:
  "rdp_for 0 argv e fds s =
     (case rdp_dial 0 argv e fds s of
        (ev, Return st) \<Rightarrow> (ev, Return st)
      | (ev, Next fds1 s1) \<Rightarrow>
          (case rdp_dial 1 argv e fds1 s1 of
             (ev', Return st) \<Rightarrow> (ev @ ev', Return st)
           | (ev', Next fds2 s2) \<Rightarrow> (ev @ ev', Next fds2 s2)))"
proof -
  have two: "rdp_for 2 argv e f x = ([], Next f x)" for f x
    by (subst rdp_for.simps) simp
  have one: "rdp_for 1 argv e f x =
      (case rdp_dial 1 argv e f x of
         (ev', Return st) \<Rightarrow> (ev', Return st)
       | (ev', Next fds2 s2) \<Rightarrow> (ev', Next fds2 s2))" for f x
    by (subst rdp_for.simps) (simp add: two split: prod.split result.split)
  show ?thesis
    by (subst rdp_for.simps) (simp add: one split: prod.split result.split)
qed

lemma rdp_for_maxsock:
  assumes "rdp_for 0 argv e fds s = (ev, Next fds' s')"
  shows "sockfd s' 0 \<le> maxsock s' \<and> sockfd s' 1 \<le> maxsock s'"
  using assms
  by (auto simp: rdp_for_unfold rdp_dial_unfold split: if_splits option.splits)

lemma dp_dial_unfold:
  "dp_dial i argv e fds s =
     (if port_of argv i = 0 then ([Fprintf ''invalid target port''], Return 25)
      else case addr_of e argv i of
        None \<Rightarrow> ([Perror ''gethostbyname''], Return 25)
      | Some a \<Rightarrow>
          if \<not> socket_ok e i then ([Socket (-1), Perror ''socket''], Return (-1))
          else if connect_ret e i \<noteq> 0
          then ([Socket (new_fd fds), Connect (new_fd fds) (port_of argv i) a (connect_ret e i),
                 Perror ''connect'', Close (new_fd fds)],
                Next fds (s\<lparr>sockfd := (sockfd s)(i := new_fd fds),
                              maxsock := max (maxsock s) (new_fd fds)\<rparr>))
          else ([Socket (new_fd fds), Connect (new_fd fds) (port_of argv i) a 0],
                Next (new_fd fds # fds) (s\<lparr>sockfd := (sockfd s)(i := new_fd fds),
                              maxsock := max (maxsock s) (new_fd fds)\<rparr>)))"
  using new_fd_nonneg[of fds] close_new_fd[of fds]
  unfolding dp_dial_def port_of_def addr_of_def new_fd_def
  by (auto simp: Let_def os_socket_def max_def split: option.splits)

lemma dp_for_unfold:
  "dp_for 0 argv e fds s =
     (case dp_dial 0 argv e fds s of
        (ev, Return st) \<Rightarrow> (ev, Return st)
      | (ev, Next fds1 s1) \<Rightarrow>
          (case dp_dial 1 argv e fds1 s1 of
             (ev', Return st) \<Rightarrow> (ev @ ev', Return st)
           | (ev', Next fds2 s2) \<Rightarrow> (ev @ ev', Next fds2 s2)))"
proof -
  have two: "dp_for 2 argv e f x = ([], Next f x)" for f x
    by (subst dp_for.simps) simp
  have one: "dp_for 1 argv e f x =
      (case dp_dial 1 argv e f x of
         (ev', Return st) \<Rightarrow> (ev', Return st)
       | (ev', Next fds2 s2) \<Rightarrow> (ev', Next fds2 s2))" for f x
    by (subst dp_for.simps) (simp add: two split: prod.split result.split)
  show ?thesis
    by (subst dp_for.simps) (simp add: one split: prod.split result.split)
qed

lemma dp_for_maxsock:
  assumes "dp_for 0 argv e fds s = (ev, Next fds' s')"
  shows "sockfd s' 0 \<le> maxsock s' \<and> sockfd s' 1 \<le> maxsock s'"
  using assms
  by (auto simp: dp_for_unfold dp_dial_unfold split: if_splits option.splits)

section \<open>Closing on a failed read or write\<close>

lemma closes_append [simp]: "closes (a @ b) = closes a @ closes b"
  by (simp add: closes_def)

lemma bad_descriptor_poll:
  "bad_descriptor fds (maxsock s + 1) (poll_set s) \<longleftrightarrow>
     (sockfd s 0 \<le> maxsock s \<and> sockfd s 0 \<notin> set fds) \<or>
     (sockfd s 1 \<le> maxsock s \<and> sockfd s 1 \<notin> set fds)"
  by (auto simp: bad_descriptor_def poll_set_def)

lemma closed_both_set: "set (closed_both fds s) = set fds - {sockfd s 0, sockfd s 1}"
  by (auto simp: closed_both_def os_close_def)

lemma rdp_loop_bad:
  assumes "bad_descriptor fds (maxsock s + 1) (poll_set s)"
  shows "rdp_loop fds s sc =
           ([Select (maxsock s + 1) (poll_set s) (-1) (poll_set s)], Exited (-1))"
proof -
  have it: "rdp_iteration fds s e =
      ([Select (maxsock s + 1) (poll_set s) (-1) (poll_set s)], Some (Return (-1)))" for e
    using assms by (cases rule: rdp_iteration_cases[of fds s e]) simp_all
  show ?thesis
  proof (cases sc)
    case Nil
    then show ?thesis using rdp_loop_Nil[OF it[of idle]] by simp
  next
    case (Cons e es)
    then show ?thesis using rdp_loop_exit[OF it[of e]] by simp
  qed
qed

lemma rdp_iteration_failed:
  assumes "rdp_iteration fds s e = (ev, r)" "io_failed ev"
  shows "\<exists>pre s'. ev = pre @ [Close (sockfd s 0), Close (sockfd s 1)] \<and> closes pre = [] \<and>
           r = Some (Next (closed_both fds s) s') \<and> closeneeded s' = 1 \<and>
           sockfd s' = sockfd s \<and> maxsock s' = maxsock s"
  using assms
  by (cases rule: rdp_iteration_cases[of fds s e])
     (auto simp: io_failed_def closes_def)

lemma rdp_close_then_exit:
  assumes "rdp_iteration fds s e = (ev, r)" "io_failed ev"
    "sockfd s 0 \<le> maxsock s" "sockfd s 1 \<le> maxsock s"
  shows "\<exists>pre s'. ev = pre @ [Close (sockfd s 0), Close (sockfd s 1)] \<and> closes pre = [] \<and>
           r = Some (Next (closed_both fds s) s') \<and> closeneeded s' = 1 \<and>
           sockfd s 0 \<notin> set (closed_both fds s) \<and> sockfd s 1 \<notin> set (closed_both fds s) \<and>
           rdp_loop (closed_both fds s) s' sc =
             ([Select (maxsock s + 1) (poll_set s) (-1) (poll_set s)], Exited (-1)) \<and>
           rdp_loop fds s (e # sc) =
             (ev @ [Select (maxsock s + 1) (poll_set s) (-1) (poll_set s)], Exited (-1))"
proof -
  from rdp_iteration_failed[OF assms(1,2)]
  obtain pre s' where f: "ev = pre @ [Close (sockfd s 0), Close (sockfd s 1)]" "closes pre = []"
    "r = Some (Next (closed_both fds s) s')" "closeneeded s' = 1"
    "sockfd s' = sockfd s" "maxsock s' = maxsock s" by blast
  have ps: "poll_set s' = poll_set s" using f(5) by (simp add: poll_set_def)
  have "bad_descriptor (closed_both fds s) (maxsock s' + 1) (poll_set s')"
    unfolding bad_descriptor_poll using assms(3,4) f(5,6) by (simp add: closed_both_set)
  from rdp_loop_bad[OF this, of sc]
  have l: "rdp_loop (closed_both fds s) s' sc =
      ([Select (maxsock s + 1) (poll_set s) (-1) (poll_set s)], Exited (-1))"
    using f(6) ps by simp
  have it: "rdp_iteration fds s e = (ev, Some (Next (closed_both fds s) s'))"
    using assms(1) f(3) by simp
  have "rdp_loop fds s (e # sc) =
      (ev @ [Select (maxsock s + 1) (poll_set s) (-1) (poll_set s)], Exited (-1))"
    unfolding rdp_loop_next[OF it] l by simp
  with f l show ?thesis by (simp add: closed_both_set)
qed

lemma dp_loop_bad:
  assumes "bad_descriptor fds (maxsock s + 1) (poll_set s)"
  shows "dp_loop fds s sc =
           ([Select (maxsock s + 1) (poll_set s) (-1) (poll_set s)], Exited 30)"
proof -
  have it: "dp_iteration fds s e =
      ([Select (maxsock s + 1) (poll_set s) (-1) (poll_set s)], Some (Return 30))" for e
    using assms by (cases rule: dp_iteration_cases[of fds s e]) simp_all
  show ?thesis
  proof (cases sc)
    case Nil
    then show ?thesis using dp_loop_Nil[OF it[of idle]] by simp
  next
    case (Cons e es)
    then show ?thesis using dp_loop_exit[OF it[of e]] by simp
  qed
qed

lemma dp_iteration_failed:
  assumes "dp_iteration fds s e = (ev, r)" "io_failed ev"
  shows "\<exists>pre s'. ev = pre @ [Close (sockfd s 0), Close (sockfd s 1)] \<and> closes pre = [] \<and>
           r = Some (Next (closed_both fds s) s') \<and>
           sockfd s' = sockfd s \<and> maxsock s' = maxsock s"
  using assms
  by (cases rule: dp_iteration_cases[of fds s e])
     (auto simp: io_failed_def closes_def)

lemma dp_close_then_exit:
  assumes "dp_iteration fds s e = (ev, r)" "io_failed ev"
    "sockfd s 0 \<le> maxsock s" "sockfd s 1 \<le> maxsock s"
  shows "\<exists>pre s'. ev = pre @ [Close (sockfd s 0), Close (sockfd s 1)] \<and> closes pre = [] \<and>
           r = Some (Next (closed_both fds s) s') \<and>
           sockfd s 0 \<notin> set (closed_both fds s) \<and> sockfd s 1 \<notin> set (closed_both fds s) \<and>
           dp_loop (closed_both fds s) s' sc =
             ([Select (maxsock s + 1) (poll_set s) (-1) (poll_set s)], Exited 30) \<and>
           dp_loop fds s (e # sc) =
             (ev @ [Select (maxsock s + 1) (poll_set s) (-1) (poll_set s)], Exited 30)"
proof -
  from dp_iteration_failed[OF assms(1,2)]
  obtain pre s' where f: "ev = pre @ [Close (sockfd s 0), Close (sockfd s 1)]" "closes pre = []"
    "r = Some (Next (closed_both fds s) s')" "True"
    "sockfd s' = sockfd s" "maxsock s' = maxsock s" by blast
  have ps: "poll_set s' = poll_set s" using f(5) by (simp add: poll_set_def)
  have "bad_descriptor (closed_both fds s) (maxsock s' + 1) (poll_set s')"
    unfolding bad_descriptor_poll using assms(3,4) f(5,6) by (simp add: closed_both_set)
  from dp_loop_bad[OF this, of sc]
  have l: "dp_loop (closed_both fds s) s' sc =
      ([Select (maxsock s + 1) (poll_set s) (-1) (poll_set s)], Exited 30)"
    using f(6) ps by simp
  have it: "dp_iteration fds s e = (ev, Some (Next (closed_both fds s) s'))"
    using assms(1) f(3) by simp
  have "dp_loop fds s (e # sc) =
      (ev @ [Select (maxsock s + 1) (poll_set s) (-1) (poll_set s)], Exited 30)"
    unfolding dp_loop_next[OF it] l by simp
  with f l show ?thesis by (simp add: closed_both_set)
qed

lemma dp_service_failed:
  assumes "dp_service fds s fdsr e = (ev, s', cn)" "io_failed ev"
  shows "cn = 1"
  using assms
  by (cases rule: dp_service_cases[of s fdsr fds e]) (auto simp: io_failed_def)

text \<open>
  C2. When the read of a pass returns zero or less, or its write does, the pass ends by
  closing both descriptors (revdatapipe.c has set \<^verbatim>\<open>closeneeded\<close> to 1; in datapipe.c
  the flag is local to the pass and is 1 as well) and closes nothing before that. Both
  descriptors are then closed in the kernel's table, so the next \<^verbatim>\<open>select\<close> fails at once
  whatever the environment offers: the rest of the run is that one call, with no read
  and no write, and the process returns (-1 in revdatapipe.c, 30 in datapipe.c). The
  bound of the descriptors by \<^verbatim>\<open>maxsock\<close> that this needs is what the dialling loop
  leaves behind.
\<close>

theorem close_on_failure:
  "(rdp_iteration fds s e = (ev, r) \<and> io_failed ev \<and>
      sockfd s 0 \<le> maxsock s \<and> sockfd s 1 \<le> maxsock s \<longrightarrow>
      (\<exists>pre s'. ev = pre @ [Close (sockfd s 0), Close (sockfd s 1)] \<and> closes pre = [] \<and>
         r = Some (Next (closed_both fds s) s') \<and> closeneeded s' = 1 \<and>
         sockfd s 0 \<notin> set (closed_both fds s) \<and> sockfd s 1 \<notin> set (closed_both fds s) \<and>
         rdp_loop (closed_both fds s) s' sc =
           ([Select (maxsock s + 1) (poll_set s) (-1) (poll_set s)], Exited (-1)) \<and>
         rdp_loop fds s (e # sc) =
           (ev @ [Select (maxsock s + 1) (poll_set s) (-1) (poll_set s)], Exited (-1)))) \<and>
   (dp_iteration fds t e = (ev, q) \<and> io_failed ev \<and>
      sockfd t 0 \<le> maxsock t \<and> sockfd t 1 \<le> maxsock t \<longrightarrow>
      (\<exists>pre t'. ev = pre @ [Close (sockfd t 0), Close (sockfd t 1)] \<and> closes pre = [] \<and>
         q = Some (Next (closed_both fds t) t') \<and>
         sockfd t 0 \<notin> set (closed_both fds t) \<and> sockfd t 1 \<notin> set (closed_both fds t) \<and>
         dp_loop (closed_both fds t) t' sc =
           ([Select (maxsock t + 1) (poll_set t) (-1) (poll_set t)], Exited 30) \<and>
         dp_loop fds t (e # sc) =
           (ev @ [Select (maxsock t + 1) (poll_set t) (-1) (poll_set t)], Exited 30))) \<and>
   (dp_service fds t fdsr e = (ev, t1, cn) \<and> io_failed ev \<longrightarrow> cn = 1) \<and>
   (rdp_for 0 argv e0 fds0 s0 = (ev0, Next fds1 s1) \<longrightarrow>
      sockfd s1 0 \<le> maxsock s1 \<and> sockfd s1 1 \<le> maxsock s1) \<and>
   (dp_for 0 argv e0 fds0 t0 = (ev0, Next fds1 t2) \<longrightarrow>
      sockfd t2 0 \<le> maxsock t2 \<and> sockfd t2 1 \<le> maxsock t2)"
  using rdp_close_then_exit[of fds s e ev r sc] dp_close_then_exit[of fds t e ev q sc]
    dp_service_failed[of fds t fdsr e ev t1 cn]
    rdp_for_maxsock[of argv e0 fds0 s0 ev0 fds1 s1] dp_for_maxsock[of argv e0 fds0 t0 ev0 fds1 t2]
  by blast

theorem close_on_failure_witness:
  "rdp_iteration ex_fds ex_rdp ex_eof =
     ([Select 5 [3, 4] 1 [3], Recv 3 4096 0 [], Close 3, Close 4],
      Some (Next [0, 1, 2] (ex_rdp\<lparr>closeneeded := 1\<rparr>))) \<and>
   io_failed [Select 5 [3, 4] 1 [3], Recv 3 4096 0 [], Close 3, Close 4] \<and>
   sockfd ex_rdp 0 \<le> maxsock ex_rdp \<and> sockfd ex_rdp 1 \<le> maxsock ex_rdp \<and>
   rdp_loop ex_fds ex_rdp [ex_eof, ex_pass] =
     ([Select 5 [3, 4] 1 [3], Recv 3 4096 0 [], Close 3, Close 4, Select 5 [3, 4] (-1) [3, 4]],
      Exited (-1)) \<and>
   dp_iteration ex_fds ex_dp ex_wfail =
     ([Select 5 [3, 4] 1 [3], Recv 3 4096 2 [104, 105], Send 4 [104, 105] (-1),
       Close 3, Close 4],
      Some (Next [0, 1, 2] (ex_dp\<lparr>buf := [104, 105] @ replicate 4094 0\<rparr>))) \<and>
   io_failed [Select 5 [3, 4] 1 [3], Recv 3 4096 2 [104, 105], Send 4 [104, 105] (-1),
       Close 3, Close 4] \<and>
   sockfd ex_dp 0 \<le> maxsock ex_dp \<and> sockfd ex_dp 1 \<le> maxsock ex_dp \<and>
   dp_loop ex_fds ex_dp [ex_wfail, ex_pass] =
     ([Select 5 [3, 4] 1 [3], Recv 3 4096 2 [104, 105], Send 4 [104, 105] (-1),
       Close 3, Close 4, Select 5 [3, 4] (-1) [3, 4]],
      Exited 30)"
proof -
  have a: "rdp_iteration ex_fds ex_rdp ex_eof =
     ([Select 5 [3, 4] 1 [3], Recv 3 4096 0 [], Close 3, Close 4],
      Some (Next [0, 1, 2] (ex_rdp\<lparr>closeneeded := 1\<rparr>)))"
    by (simp add: model_defs example_defs)
  have b: "dp_iteration ex_fds ex_dp ex_wfail =
     ([Select 5 [3, 4] 1 [3], Recv 3 4096 2 [104, 105], Send 4 [104, 105] (-1),
       Close 3, Close 4],
      Some (Next [0, 1, 2] (ex_dp\<lparr>buf := [104, 105] @ replicate 4094 0\<rparr>)))"
    by (simp add: model_defs example_defs)
  have c: "io_failed [Select 5 [3, 4] 1 [3], Recv 3 4096 0 [], Close 3, Close 4]"
    "io_failed [Select 5 [3, 4] 1 [3], Recv 3 4096 2 [104, 105], Send 4 [104, 105] (-1),
       Close 3, Close 4]"
    by (simp_all add: io_failed_def)
  have d: "sockfd ex_rdp 0 = 3" "sockfd ex_rdp 1 = 4" "maxsock ex_rdp = 4"
    "sockfd ex_dp 0 = 3" "sockfd ex_dp 1 = 4" "maxsock ex_dp = 4"
    by (simp_all add: example_defs)
  have p: "poll_set ex_rdp = [3, 4]" "poll_set ex_dp = [3, 4]"
    by (simp_all add: poll_set_def example_defs)
  have r1: "rdp_loop ex_fds ex_rdp [ex_eof, ex_pass] =
     ([Select 5 [3, 4] 1 [3], Recv 3 4096 0 [], Close 3, Close 4, Select 5 [3, 4] (-1) [3, 4]],
      Exited (-1))"
    using close_on_failure[of ex_fds ex_rdp ex_eof
        "[Select 5 [3, 4] 1 [3], Recv 3 4096 0 [], Close 3, Close 4]"
        "Some (Next [0, 1, 2] (ex_rdp\<lparr>closeneeded := 1\<rparr>))" "[ex_pass]", THEN conjunct1]
      a c(1)
    unfolding d p by auto
  have r2: "dp_loop ex_fds ex_dp [ex_wfail, ex_pass] =
     ([Select 5 [3, 4] 1 [3], Recv 3 4096 2 [104, 105], Send 4 [104, 105] (-1),
       Close 3, Close 4, Select 5 [3, 4] (-1) [3, 4]],
      Exited 30)"
    using close_on_failure[of ex_fds _ ex_wfail
        "[Select 5 [3, 4] 1 [3], Recv 3 4096 2 [104, 105], Send 4 [104, 105] (-1),
          Close 3, Close 4]" _ "[ex_pass]" ex_dp
        "Some (Next [0, 1, 2] (ex_dp\<lparr>buf := [104, 105] @ replicate 4094 0\<rparr>))",
        THEN conjunct2, THEN conjunct1]
      b c(2)
    unfolding d p by auto
  show ?thesis
    using a b c r1 r2 by (simp add: example_defs)
qed

section \<open>A refused connection\<close>

declare rdp_for.simps [simp del] dp_for.simps [simp del]

lemma rdp_dial_refused:
  assumes "\<not> dial_fatal argv e i" "connect_ret e i \<noteq> 0"
  shows "\<exists>a s'. rdp_dial i argv e fds s =
           ([Socket (new_fd fds), Connect (new_fd fds) (port_of argv i) a (connect_ret e i),
             Perror ''connect'', Close (new_fd fds)], Next fds s') \<and>
           sockfd s' i = new_fd fds"
  using assms by (auto simp: dial_fatal_def rdp_dial_unfold)

lemma rdp_for_fatal:
  "(\<exists>ev st. rdp_for 0 argv e fds s = (ev, Return st)) \<longleftrightarrow>
     dial_fatal argv e 0 \<or> dial_fatal argv e 1"
  by (auto simp: dial_fatal_def rdp_for_unfold rdp_dial_unfold split: option.splits)

lemma rdp_for_closes:
  assumes "rdp_for 0 argv e fds s = (ev, Next fds1 s1)"
  shows "closes ev = map (sockfd s1) (filter (\<lambda>i. connect_ret e i \<noteq> 0) [0, 1])"
  using assms
  by (auto simp: rdp_for_unfold rdp_dial_unfold closes_def split: option.splits if_splits)

lemma rdp_main_enters:
  assumes "length argv = 5" "\<not> dial_fatal argv e 0" "\<not> dial_fatal argv e 1"
  shows "\<exists>ev fds1 s1. rdp_for 0 argv e (open_fds e) (s0\<lparr>maxsock := 0\<rparr>) = (ev, Next fds1 s1) \<and>
           closes ev = map (sockfd s1) (filter (\<lambda>i. connect_ret e i \<noteq> 0) [0, 1]) \<and>
           rdp_main argv e s0 =
             (ev @ fst (rdp_loop fds1 (s1\<lparr>closeneeded := 0\<rparr>) (script e)),
              snd (rdp_loop fds1 (s1\<lparr>closeneeded := 0\<rparr>) (script e)))"
proof -
  obtain ev x where f: "rdp_for 0 argv e (open_fds e) (s0\<lparr>maxsock := 0\<rparr>) = (ev, x)"
    by (cases "rdp_for 0 argv e (open_fds e) (s0\<lparr>maxsock := 0\<rparr>)")
  show ?thesis
  proof (cases x)
    case (Return st)
    with f rdp_for_fatal[of argv e "open_fds e" "s0\<lparr>maxsock := 0\<rparr>"] assms(2,3)
    show ?thesis by blast
  next
    case (Next fds1 s1)
    with f assms(1) rdp_for_closes[of argv e "open_fds e" "s0\<lparr>maxsock := 0\<rparr>" ev fds1 s1]
    show ?thesis
      by (simp add: rdp_main_def split: prod.split)
  qed
qed

lemma dp_dial_refused:
  assumes "\<not> dial_fatal argv e i" "connect_ret e i \<noteq> 0"
  shows "\<exists>a s'. dp_dial i argv e fds s =
           ([Socket (new_fd fds), Connect (new_fd fds) (port_of argv i) a (connect_ret e i),
             Perror ''connect'', Close (new_fd fds)], Next fds s') \<and>
           sockfd s' i = new_fd fds"
  using assms by (auto simp: dial_fatal_def dp_dial_unfold)

lemma dp_for_fatal:
  "(\<exists>ev st. dp_for 0 argv e fds s = (ev, Return st)) \<longleftrightarrow>
     dial_fatal argv e 0 \<or> dial_fatal argv e 1"
  by (auto simp: dial_fatal_def dp_for_unfold dp_dial_unfold split: option.splits)

lemma dp_for_closes:
  assumes "dp_for 0 argv e fds s = (ev, Next fds1 s1)"
  shows "closes ev = map (sockfd s1) (filter (\<lambda>i. connect_ret e i \<noteq> 0) [0, 1])"
  using assms
  by (auto simp: dp_for_unfold dp_dial_unfold closes_def split: option.splits if_splits)

lemma dp_main_enters:
  assumes "length argv = 5" "\<not> dial_fatal argv e 0" "\<not> dial_fatal argv e 1"
    "fork_ret e = 0"
  shows "\<exists>ev fds1 s1. dp_for 0 argv e (open_fds e) (s0\<lparr>maxsock := 0\<rparr>) = (ev, Next fds1 s1) \<and>
           closes ev = map (sockfd s1) (filter (\<lambda>i. connect_ret e i \<noteq> 0) [0, 1]) \<and>
           dp_main argv e s0 =
             (ev @ [Fork 0, Setsid] @ fst (dp_loop fds1 s1 (script e)),
              snd (dp_loop fds1 s1 (script e)))"
proof -
  obtain ev x where f: "dp_for 0 argv e (open_fds e) (s0\<lparr>maxsock := 0\<rparr>) = (ev, x)"
    by (cases "dp_for 0 argv e (open_fds e) (s0\<lparr>maxsock := 0\<rparr>)")
  show ?thesis
  proof (cases x)
    case (Return st)
    with f dp_for_fatal[of argv e "open_fds e" "s0\<lparr>maxsock := 0\<rparr>"] assms(2,3)
    show ?thesis by blast
  next
    case (Next fds1 s1)
    with f assms(1,4) dp_for_closes[of argv e "open_fds e" "s0\<lparr>maxsock := 0\<rparr>" ev fds1 s1]
    show ?thesis
      by (simp add: dp_main_def split: prod.split)
  qed
qed

text \<open>
  C3. When \<^verbatim>\<open>connect\<close> fails in a pass of the dialling loop that got its port, its
  address and its socket, the pass reports it with \<^verbatim>\<open>perror\<close>, closes the socket it has
  just created, and goes on to the next pass. The dialling loop returns from \<^verbatim>\<open>main\<close>
  exactly when a port is zero, a host does not resolve or \<^verbatim>\<open>socket\<close> fails, whatever
  \<^verbatim>\<open>connect\<close> returned. With five arguments and none of those errors the descriptors
  closed while dialling are those of the failed connects, and revdatapipe.c runs the
  polling loop; so does datapipe.c in the child that \<^verbatim>\<open>fork\<close> leaves.
\<close>

theorem connect_failure_falls_through:
  "(\<not> dial_fatal argv e i \<and> connect_ret e i \<noteq> 0 \<longrightarrow>
      (\<exists>a s'. rdp_dial i argv e fds s =
         ([Socket (new_fd fds), Connect (new_fd fds) (port_of argv i) a (connect_ret e i),
           Perror ''connect'', Close (new_fd fds)], Next fds s') \<and>
         sockfd s' i = new_fd fds) \<and>
      (\<exists>a t'. dp_dial i argv e fds t =
         ([Socket (new_fd fds), Connect (new_fd fds) (port_of argv i) a (connect_ret e i),
           Perror ''connect'', Close (new_fd fds)], Next fds t') \<and>
         sockfd t' i = new_fd fds)) \<and>
   ((\<exists>ev st. rdp_for 0 argv e fds s = (ev, Return st)) \<longleftrightarrow>
      dial_fatal argv e 0 \<or> dial_fatal argv e 1) \<and>
   ((\<exists>ev st. dp_for 0 argv e fds t = (ev, Return st)) \<longleftrightarrow>
      dial_fatal argv e 0 \<or> dial_fatal argv e 1) \<and>
   (length argv = 5 \<and> \<not> dial_fatal argv e 0 \<and> \<not> dial_fatal argv e 1 \<longrightarrow>
      (\<exists>ev fds1 s1. rdp_for 0 argv e (open_fds e) (s0\<lparr>maxsock := 0\<rparr>) = (ev, Next fds1 s1) \<and>
         closes ev = map (sockfd s1) (filter (\<lambda>i. connect_ret e i \<noteq> 0) [0, 1]) \<and>
         rdp_main argv e s0 =
           (ev @ fst (rdp_loop fds1 (s1\<lparr>closeneeded := 0\<rparr>) (script e)),
            snd (rdp_loop fds1 (s1\<lparr>closeneeded := 0\<rparr>) (script e))))) \<and>
   (length argv = 5 \<and> \<not> dial_fatal argv e 0 \<and> \<not> dial_fatal argv e 1 \<and> fork_ret e = 0 \<longrightarrow>
      (\<exists>ev fds1 t1. dp_for 0 argv e (open_fds e) (t0\<lparr>maxsock := 0\<rparr>) = (ev, Next fds1 t1) \<and>
         closes ev = map (sockfd t1) (filter (\<lambda>i. connect_ret e i \<noteq> 0) [0, 1]) \<and>
         dp_main argv e t0 =
           (ev @ [Fork 0, Setsid] @ fst (dp_loop fds1 t1 (script e)),
            snd (dp_loop fds1 t1 (script e)))))"
  using rdp_dial_refused[of argv e i fds s] dp_dial_refused[of argv e i fds t]
    rdp_for_fatal[of argv e fds s] dp_for_fatal[of argv e fds t]
    rdp_main_enters[of argv e s0] dp_main_enters[of argv e t0]
  by blast

lemmas libc_defs = atol_def isspace_def isdigit_def to_long_def LONG_MAX_def LONG_MIN_def
  htons_def to_ushort_def INADDR_NONE_def

lemma ex_ports: "port_of ex_argv 0 = 20480" "port_of ex_argv 1 = 20736"
  by (simp_all add: port_of_def ex_argv_def libc_defs)

lemma ex_addrs: "addr_of ex_env ex_argv 0 = Some 0x0100000A"
  "addr_of ex_env ex_argv 1 = Some 0x0200000A"
  by (simp_all add: addr_of_def ex_argv_def ex_env_def libc_defs)

lemma ex_new_fd: "new_fd [0, 1, 2] = 3" "new_fd [3, 0, 1, 2] = 4"
  by (simp_all add: new_fd_def)

lemma ex_env_sel: "socket_ok ex_env i" "connect_ret ex_env 0 = -1" "connect_ret ex_env 1 = 0"
  "open_fds ex_env = [0, 1, 2]" "script ex_env = [ex_echo]" "fork_ret ex_env = 0"
  by (simp_all add: ex_env_def)

lemma ex_not_fatal: "\<not> dial_fatal ex_argv ex_env 0" "\<not> dial_fatal ex_argv ex_env 1"
  by (simp_all add: dial_fatal_def ex_ports ex_addrs ex_env_sel del: One_nat_def)

lemma ex_rdp_for:
  "rdp_for 0 ex_argv ex_env [0, 1, 2] (ex_rdp\<lparr>maxsock := 0\<rparr>) =
     ([Socket 3, Connect 3 20480 0x0100000A (-1), Perror ''connect'', Close 3,
       Socket 3, Connect 3 20736 0x0200000A 0],
      Next [3, 0, 1, 2] (ex_rdp\<lparr>sockfd := (sockfd ex_rdp)(0 := 3, 1 := 3), maxsock := 3\<rparr>))"
  by (simp add: rdp_for_unfold rdp_dial_unfold ex_ports ex_addrs ex_new_fd ex_env_sel
      ex_rdp_def fun_eq_iff del: One_nat_def)

lemma ex_dp_for:
  "dp_for 0 ex_argv ex_env [0, 1, 2] (ex_dp\<lparr>maxsock := 0\<rparr>) =
     ([Socket 3, Connect 3 20480 0x0100000A (-1), Perror ''connect'', Close 3,
       Socket 3, Connect 3 20736 0x0200000A 0],
      Next [3, 0, 1, 2] (ex_dp\<lparr>sockfd := (sockfd ex_dp)(0 := 3, 1 := 3), maxsock := 3\<rparr>))"
  by (simp add: dp_for_unfold dp_dial_unfold ex_ports ex_addrs ex_new_fd ex_env_sel
      ex_dp_def fun_eq_iff del: One_nat_def)

lemma ex_rdp_loop:
  "rdp_loop [3, 0, 1, 2]
     (ex_rdp\<lparr>sockfd := (sockfd ex_rdp)(0 := 3, 1 := 3), maxsock := 3, closeneeded := 0\<rparr>)
     [ex_echo] =
   ([Select 4 [3, 3] 1 [3, 3], Recv 3 4096 2 [104, 105], Send 3 [104, 105] 2], Waiting)"
  by (simp add: rdp_loop.simps model_defs ex_echo_def ex_rdp_def)

lemma ex_dp_loop:
  "dp_loop [3, 0, 1, 2] (ex_dp\<lparr>sockfd := (sockfd ex_dp)(0 := 3, 1 := 3), maxsock := 3\<rparr>)
     [ex_echo] =
   ([Select 4 [3, 3] 1 [3, 3], Recv 3 4096 2 [104, 105], Send 3 [104, 105] 2], Waiting)"
  by (simp add: dp_loop.simps model_defs ex_echo_def ex_dp_def)

theorem connect_failure_falls_through_witness:
  "length ex_argv = 5 \<and> \<not> dial_fatal ex_argv ex_env 0 \<and> \<not> dial_fatal ex_argv ex_env 1 \<and>
   connect_ret ex_env 0 \<noteq> 0 \<and> fork_ret ex_env = 0 \<and>
   rdp_main ex_argv ex_env ex_rdp =
     ([Socket 3, Connect 3 20480 0x0100000A (-1), Perror ''connect'', Close 3,
       Socket 3, Connect 3 20736 0x0200000A 0,
       Select 4 [3, 3] 1 [3, 3], Recv 3 4096 2 [104, 105], Send 3 [104, 105] 2], Waiting) \<and>
   dp_main ex_argv ex_env ex_dp =
     ([Socket 3, Connect 3 20480 0x0100000A (-1), Perror ''connect'', Close 3,
       Socket 3, Connect 3 20736 0x0200000A 0, Fork 0, Setsid,
       Select 4 [3, 3] 1 [3, 3], Recv 3 4096 2 [104, 105], Send 3 [104, 105] 2], Waiting)"
proof -
  have n: "length ex_argv = 5" by (simp add: ex_argv_def)
  note th = connect_failure_falls_through[of ex_argv ex_env 0 "[0, 1, 2]" ex_rdp ex_dp ex_rdp ex_dp]
  from th n ex_not_fatal
  obtain ev fds1 s1 where
    r: "rdp_for 0 ex_argv ex_env (open_fds ex_env) (ex_rdp\<lparr>maxsock := 0\<rparr>) = (ev, Next fds1 s1)"
      "rdp_main ex_argv ex_env ex_rdp =
         (ev @ fst (rdp_loop fds1 (s1\<lparr>closeneeded := 0\<rparr>) (script ex_env)),
          snd (rdp_loop fds1 (s1\<lparr>closeneeded := 0\<rparr>) (script ex_env)))"
    by blast
  from th n ex_not_fatal ex_env_sel(6)
  obtain ev' fds2 t1 where
    d: "dp_for 0 ex_argv ex_env (open_fds ex_env) (ex_dp\<lparr>maxsock := 0\<rparr>) = (ev', Next fds2 t1)"
      "dp_main ex_argv ex_env ex_dp =
         (ev' @ [Fork 0, Setsid] @ fst (dp_loop fds2 t1 (script ex_env)),
          snd (dp_loop fds2 t1 (script ex_env)))"
    by blast
  have "rdp_main ex_argv ex_env ex_rdp =
     ([Socket 3, Connect 3 20480 0x0100000A (-1), Perror ''connect'', Close 3,
       Socket 3, Connect 3 20736 0x0200000A 0,
       Select 4 [3, 3] 1 [3, 3], Recv 3 4096 2 [104, 105], Send 3 [104, 105] 2], Waiting)"
    using r ex_rdp_for ex_rdp_loop by (simp add: ex_env_sel del: One_nat_def)
  moreover have "dp_main ex_argv ex_env ex_dp =
     ([Socket 3, Connect 3 20480 0x0100000A (-1), Perror ''connect'', Close 3,
       Socket 3, Connect 3 20736 0x0200000A 0, Fork 0, Setsid,
       Select 4 [3, 3] 1 [3, 3], Recv 3 4096 2 [104, 105], Send 3 [104, 105] 2], Waiting)"
    using d ex_dp_for ex_dp_loop by (simp add: ex_env_sel del: One_nat_def)
  ultimately show ?thesis
    using n ex_not_fatal by (simp add: ex_env_sel)
qed

section \<open>One direction in a pass\<close>

lemma two_cases: "i < 2 \<Longrightarrow> (i = 0 \<Longrightarrow> P) \<Longrightarrow> (i = Suc 0 \<Longrightarrow> P) \<Longrightarrow> P" for i :: nat
  by (cases i) auto

lemma rdp_iteration_one_side:
  assumes "rdp_iteration fds s e = (ev, r)"
  shows "length (reads ev) \<le> 1 \<and> length (writes ev) \<le> 1 \<and>
     (\<forall>nfds fdsr n fdsr'. Select nfds fdsr n fdsr' \<in> set ev \<and> 0 \<le> n \<longrightarrow>
        (if FD_ISSET (sockfd s 0) fdsr'
         then reads ev = [sockfd s 0] \<and> set (writes ev) \<subseteq> {sockfd s 1}
         else if FD_ISSET (sockfd s 1) fdsr'
         then reads ev = [sockfd s 1] \<and> set (writes ev) \<subseteq> {sockfd s 0}
         else reads ev = [] \<and> writes ev = []))"
proof (cases rule: rdp_iteration_cases[of fds s e])
  case blocks
  with assms have "ev = []" by simp
  then show ?thesis by (simp add: reads_def writes_def)
next
  case fails
  with assms have "ev = [Select (maxsock s + 1) (poll_set s) (- 1) (poll_set s)]" by simp
  then show ?thesis by (simp add: reads_def writes_def)
next
  case (idle r fdsr')
  with assms have "ev = [Select (maxsock s + 1) (poll_set s) r fdsr']" by simp
  with idle show ?thesis by (simp add: reads_def writes_def)
next
  case (stop r fdsr' i n b')
  with assms have ev: "ev = [Select (maxsock s + 1) (poll_set s) r fdsr',
      Recv (sockfd s i) sizeof_buf n [], Close (sockfd s 0), Close (sockfd s 1)]" by simp
  from stop(3) show ?thesis
    by (rule two_cases) (use stop in \<open>simp_all add: ev reads_def writes_def\<close>)
next
  case (wfail r fdsr' i n b' k)
  with assms have ev: "ev = [Select (maxsock s + 1) (poll_set s) r fdsr',
           Recv (sockfd s i) sizeof_buf n (take (nat n) b'),
           Send (sockfd s (1 - i)) (take (nat n) b') k,
           Close (sockfd s 0), Close (sockfd s 1)]" by simp
  from wfail(3) show ?thesis
    by (rule two_cases) (use wfail in \<open>simp_all add: ev reads_def writes_def\<close>)
next
  case (copy r fdsr' i n b' k)
  with assms have ev: "ev = [Select (maxsock s + 1) (poll_set s) r fdsr',
           Recv (sockfd s i) sizeof_buf n (take (nat n) b'),
           Send (sockfd s (1 - i)) (take (nat n) b') k]" by simp
  from copy(3) show ?thesis
    by (rule two_cases) (use copy in \<open>simp_all add: ev reads_def writes_def\<close>)
qed

lemma dp_iteration_one_side:
  assumes "dp_iteration fds s e = (ev, r)"
  shows "length (reads ev) \<le> 1 \<and> length (writes ev) \<le> 1 \<and>
     (\<forall>nfds fdsr n fdsr'. Select nfds fdsr n fdsr' \<in> set ev \<and> 0 \<le> n \<longrightarrow>
        (if FD_ISSET (sockfd s 0) fdsr'
         then reads ev = [sockfd s 0] \<and> set (writes ev) \<subseteq> {sockfd s 1}
         else if FD_ISSET (sockfd s 1) fdsr'
         then reads ev = [sockfd s 1] \<and> set (writes ev) \<subseteq> {sockfd s 0}
         else reads ev = [] \<and> writes ev = []))"
proof (cases rule: dp_iteration_cases[of fds s e])
  case blocks
  with assms have "ev = []" by simp
  then show ?thesis by (simp add: reads_def writes_def)
next
  case fails
  with assms have "ev = [Select (maxsock s + 1) (poll_set s) (- 1) (poll_set s)]" by simp
  then show ?thesis by (simp add: reads_def writes_def)
next
  case (idle r fdsr')
  with assms have "ev = [Select (maxsock s + 1) (poll_set s) r fdsr']" by simp
  with idle show ?thesis by (simp add: reads_def writes_def)
next
  case (stop r fdsr' i n b')
  with assms have ev: "ev = [Select (maxsock s + 1) (poll_set s) r fdsr',
      Recv (sockfd s i) sizeof_buf n [], Close (sockfd s 0), Close (sockfd s 1)]" by simp
  from stop(3) show ?thesis
    by (rule two_cases) (use stop in \<open>simp_all add: ev reads_def writes_def\<close>)
next
  case (wfail r fdsr' i n b' k)
  with assms have ev: "ev = [Select (maxsock s + 1) (poll_set s) r fdsr',
           Recv (sockfd s i) sizeof_buf n (take (nat n) b'),
           Send (sockfd s (1 - i)) (take (nat n) b') k,
           Close (sockfd s 0), Close (sockfd s 1)]" by simp
  from wfail(3) show ?thesis
    by (rule two_cases) (use wfail in \<open>simp_all add: ev reads_def writes_def\<close>)
next
  case (copy r fdsr' i n b' k)
  with assms have ev: "ev = [Select (maxsock s + 1) (poll_set s) r fdsr',
           Recv (sockfd s i) sizeof_buf n (take (nat n) b'),
           Send (sockfd s (1 - i)) (take (nat n) b') k]" by simp
  from copy(3) show ?thesis
    by (rule two_cases) (use copy in \<open>simp_all add: ev reads_def writes_def\<close>)
qed

text \<open>
  C4. A pass of the loop makes at most one read and at most one write. When
  \<^verbatim>\<open>select\<close> has returned and \<^verbatim>\<open>sockfd[0]\<close> is in the set, the one read is on
  \<^verbatim>\<open>sockfd[0]\<close> and a write, if any, is on \<^verbatim>\<open>sockfd[1]\<close>, whether or not \<^verbatim>\<open>sockfd[1]\<close> is
  in the set as well; \<^verbatim>\<open>sockfd[1]\<close> is read only when \<^verbatim>\<open>sockfd[0]\<close> is not in the set; and
  when neither is, nothing is read or written.
\<close>

theorem one_side_per_pass:
  "(rdp_iteration fds s e = (ev, r) \<longrightarrow>
      length (reads ev) \<le> 1 \<and> length (writes ev) \<le> 1 \<and>
      (\<forall>nfds fdsr n fdsr'. Select nfds fdsr n fdsr' \<in> set ev \<and> 0 \<le> n \<longrightarrow>
         (if FD_ISSET (sockfd s 0) fdsr'
          then reads ev = [sockfd s 0] \<and> set (writes ev) \<subseteq> {sockfd s 1}
          else if FD_ISSET (sockfd s 1) fdsr'
          then reads ev = [sockfd s 1] \<and> set (writes ev) \<subseteq> {sockfd s 0}
          else reads ev = [] \<and> writes ev = []))) \<and>
   (dp_iteration fds t e = (ev, q) \<longrightarrow>
      length (reads ev) \<le> 1 \<and> length (writes ev) \<le> 1 \<and>
      (\<forall>nfds fdsr n fdsr'. Select nfds fdsr n fdsr' \<in> set ev \<and> 0 \<le> n \<longrightarrow>
         (if FD_ISSET (sockfd t 0) fdsr'
          then reads ev = [sockfd t 0] \<and> set (writes ev) \<subseteq> {sockfd t 1}
          else if FD_ISSET (sockfd t 1) fdsr'
          then reads ev = [sockfd t 1] \<and> set (writes ev) \<subseteq> {sockfd t 0}
          else reads ev = [] \<and> writes ev = [])))"
  using rdp_iteration_one_side[of fds s e ev r] dp_iteration_one_side[of fds t e ev q]
  by blast

theorem one_side_per_pass_witness:
  "rdp_iteration ex_fds ex_rdp ex_pass =
     ([Select 5 [3, 4] 2 [3, 4], Recv 3 4096 2 [104, 105], Send 4 [104, 105] 2],
      Some (Next ex_fds (ex_rdp\<lparr>buf := [104, 105] @ replicate 4094 0, nbyt := 2\<rparr>))) \<and>
   Select 5 [3, 4] 2 [3, 4] \<in>
     set [Select 5 [3, 4] 2 [3, 4], Recv 3 4096 2 [104, 105], Send 4 [104, 105] 2] \<and>
   (0 :: int) \<le> 2 \<and>
   FD_ISSET (sockfd ex_rdp 0) [3, 4] \<and> FD_ISSET (sockfd ex_rdp 1) [3, 4] \<and>
   sockfd ex_rdp 0 = 3 \<and> sockfd ex_rdp 1 = 4 \<and>
   reads [Select 5 [3, 4] 2 [3, 4], Recv 3 4096 2 [104, 105], Send 4 [104, 105] 2] = [3] \<and>
   set (writes [Select 5 [3, 4] 2 [3, 4], Recv 3 4096 2 [104, 105], Send 4 [104, 105] 2])
     \<subseteq> {4}"
proof -
  have a: "rdp_iteration ex_fds ex_rdp ex_pass =
     ([Select 5 [3, 4] 2 [3, 4], Recv 3 4096 2 [104, 105], Send 4 [104, 105] 2],
      Some (Next ex_fds (ex_rdp\<lparr>buf := [104, 105] @ replicate 4094 0, nbyt := 2\<rparr>)))"
    by (simp add: model_defs example_defs)
  have d: "sockfd ex_rdp 0 = 3" "sockfd ex_rdp 1 = 4"
    by (simp_all add: example_defs)
  have f: "FD_ISSET 3 [3, 4]" "FD_ISSET 4 [3, 4]"
    by (simp_all add: FD_ISSET_def)
  have m: "Select 5 [3, 4] 2 [3, 4] \<in>
     set [Select 5 [3, 4] 2 [3, 4], Recv 3 4096 2 [104, 105], Send 4 [104, 105] 2]"
    by simp
  have "reads [Select 5 [3, 4] 2 [3, 4], Recv 3 4096 2 [104, 105], Send 4 [104, 105] 2] = [3] \<and>
    set (writes [Select 5 [3, 4] 2 [3, 4], Recv 3 4096 2 [104, 105], Send 4 [104, 105] 2])
      \<subseteq> {4}"
    using one_side_per_pass[of ex_fds ex_rdp ex_pass
        "[Select 5 [3, 4] 2 [3, 4], Recv 3 4096 2 [104, 105], Send 4 [104, 105] 2]"
        "Some (Next ex_fds (ex_rdp\<lparr>buf := [104, 105] @ replicate 4094 0, nbyt := 2\<rparr>))",
        THEN conjunct1] a m f
    unfolding d by auto
  with a d f m show ?thesis by simp
qed

section \<open>The termination flag and short writes\<close>

lemma rdp_iteration_flag:
  assumes "rdp_iteration fds s e = (ev, Some (Next fds' s'))"
  shows "(closeneeded s' = 1 \<longleftrightarrow> io_failed ev) \<and> (closeneeded s' = 0 \<longleftrightarrow> \<not> io_failed ev) \<and>
         (closes ev \<noteq> [] \<longleftrightarrow> io_failed ev)"
  using assms
  by (cases rule: rdp_iteration_cases[of fds s e])
     (auto simp: io_failed_def closes_def)

lemma rdp_iteration_short:
  assumes "rdp_iteration fds s e = (ev, r)" "Send fd d k \<in> set ev" "0 < k"
  shows "(\<exists>s'. r = Some (Next fds s') \<and> closeneeded s' = 0) \<and> closes ev = [] \<and>
         writes ev = [fd] \<and> k \<le> int (length d) \<and> \<not> io_failed ev"
  using assms
  by (cases rule: rdp_iteration_cases[of fds s e])
     (auto simp: io_failed_def closes_def writes_def)

lemma dp_iteration_flag:
  assumes "dp_iteration fds s e = (ev, Some (Next fds' s'))"
  shows "closes ev \<noteq> [] \<longleftrightarrow> io_failed ev"
  using assms
  by (cases rule: dp_iteration_cases[of fds s e])
     (auto simp: io_failed_def closes_def)

lemma dp_iteration_short:
  assumes "dp_iteration fds s e = (ev, r)" "Send fd d k \<in> set ev" "0 < k"
  shows "(\<exists>s'. r = Some (Next fds s')) \<and> closes ev = [] \<and>
         writes ev = [fd] \<and> k \<le> int (length d) \<and> \<not> io_failed ev"
  using assms
  by (cases rule: dp_iteration_cases[of fds s e])
     (auto simp: io_failed_def closes_def writes_def)

lemma dp_service_flag:
  assumes "dp_service fds s fdsr e = (ev, s', cn)"
  shows "(cn = 1 \<longleftrightarrow> io_failed ev) \<and> (cn = 0 \<longleftrightarrow> \<not> io_failed ev)"
  using assms
  by (cases rule: dp_service_cases[of s fdsr fds e]) (auto simp: io_failed_def split: if_splits)

text \<open>
  C5. In a pass that got past \<^verbatim>\<open>select\<close>, \<^verbatim>\<open>closeneeded\<close> ends as 1 exactly when the
  read or the write of the pass returned zero or less, and as 0 otherwise; the
  descriptors are closed in exactly those passes. A write that returns a positive
  count, also one below the number of bytes handed to it, leaves the flag at 0: the
  pass closes nothing, keeps the descriptor table, and has made that one write only,
  so the bytes the write did not take are not written again.
\<close>

theorem short_write_not_terminal:
  "(rdp_iteration fds s e = (ev, Some (Next fds' s')) \<longrightarrow>
      (closeneeded s' = 1 \<longleftrightarrow> io_failed ev) \<and> (closeneeded s' = 0 \<longleftrightarrow> \<not> io_failed ev) \<and>
      (closes ev \<noteq> [] \<longleftrightarrow> io_failed ev)) \<and>
   (rdp_iteration fds s e = (ev, r) \<and> Send fd d k \<in> set ev \<and> 0 < k \<longrightarrow>
      (\<exists>s'. r = Some (Next fds s') \<and> closeneeded s' = 0) \<and> closes ev = [] \<and>
      writes ev = [fd] \<and> k \<le> int (length d) \<and> \<not> io_failed ev) \<and>
   (dp_service fds t fdsr e = (ev, t1, cn) \<longrightarrow>
      (cn = 1 \<longleftrightarrow> io_failed ev) \<and> (cn = 0 \<longleftrightarrow> \<not> io_failed ev)) \<and>
   (dp_iteration fds t e = (ev, Some (Next fds' t')) \<longrightarrow> (closes ev \<noteq> [] \<longleftrightarrow> io_failed ev)) \<and>
   (dp_iteration fds t e = (ev, q) \<and> Send fd d k \<in> set ev \<and> 0 < k \<longrightarrow>
      (\<exists>t'. q = Some (Next fds t')) \<and> closes ev = [] \<and>
      writes ev = [fd] \<and> k \<le> int (length d) \<and> \<not> io_failed ev)"
  using rdp_iteration_flag[of fds s e ev fds' s'] rdp_iteration_short[of fds s e ev r fd d k]
    dp_service_flag[of fds t fdsr e ev t1 cn] dp_iteration_flag[of fds t e ev fds' t']
    dp_iteration_short[of fds t e ev q fd d k]
  by blast

theorem short_write_not_terminal_witness:
  "rdp_iteration ex_fds ex_rdp ex_short =
     ([Select 5 [3, 4] 1 [3], Recv 3 4096 2 [104, 105], Send 4 [104, 105] 1],
      Some (Next ex_fds (ex_rdp\<lparr>buf := [104, 105] @ replicate 4094 0, nbyt := 2\<rparr>))) \<and>
   Send 4 [104, 105] 1 \<in>
     set [Select 5 [3, 4] 1 [3], Recv 3 4096 2 [104, 105], Send 4 [104, 105] 1] \<and>
   (0 :: int) < 1 \<and> (1 :: int) < int (length [104, 105 :: byte]) \<and>
   closeneeded (ex_rdp\<lparr>buf := [104, 105] @ replicate 4094 0, nbyt := 2\<rparr>) = 0 \<and>
   closes [Select 5 [3, 4] 1 [3], Recv 3 4096 2 [104, 105], Send 4 [104, 105] 1] = [] \<and>
   writes [Select 5 [3, 4] 1 [3], Recv 3 4096 2 [104, 105], Send 4 [104, 105] 1] = [4] \<and>
   \<not> io_failed [Select 5 [3, 4] 1 [3], Recv 3 4096 2 [104, 105], Send 4 [104, 105] 1] \<and>
   written (fst (rdp_loop ex_fds ex_rdp [ex_short, ex_back])) =
     [(4, [104, 105]), (3, [111, 107, 33])]"
proof -
  have a: "rdp_iteration ex_fds ex_rdp ex_short =
     ([Select 5 [3, 4] 1 [3], Recv 3 4096 2 [104, 105], Send 4 [104, 105] 1],
      Some (Next ex_fds (ex_rdp\<lparr>buf := [104, 105] @ replicate 4094 0, nbyt := 2\<rparr>)))"
    by (simp add: model_defs example_defs)
  have m: "Send 4 [104, 105] 1 \<in>
     set [Select 5 [3, 4] 1 [3], Recv 3 4096 2 [104, 105], Send 4 [104, 105] 1]"
    by simp
  have w: "written (fst (rdp_loop ex_fds ex_rdp [ex_short, ex_back])) =
     [(4, [104, 105]), (3, [111, 107, 33])]"
    by (simp add: rdp_loop.simps model_defs example_defs written_def)
  have "closeneeded (ex_rdp\<lparr>buf := [104, 105] @ replicate 4094 0, nbyt := 2\<rparr>) = 0 \<and>
    closes [Select 5 [3, 4] 1 [3], Recv 3 4096 2 [104, 105], Send 4 [104, 105] 1] = [] \<and>
    writes [Select 5 [3, 4] 1 [3], Recv 3 4096 2 [104, 105], Send 4 [104, 105] 1] = [4] \<and>
    \<not> io_failed [Select 5 [3, 4] 1 [3], Recv 3 4096 2 [104, 105], Send 4 [104, 105] 1]"
    using short_write_not_terminal[of ex_fds ex_rdp ex_short
        "[Select 5 [3, 4] 1 [3], Recv 3 4096 2 [104, 105], Send 4 [104, 105] 1]"
        ex_fds "ex_rdp\<lparr>buf := [104, 105] @ replicate 4094 0, nbyt := 2\<rparr>"
        "Some (Next ex_fds (ex_rdp\<lparr>buf := [104, 105] @ replicate 4094 0, nbyt := 2\<rparr>))"
        4 "[104, 105]" 1, THEN conjunct2, THEN conjunct1] a m
    by auto
  with a m w show ?thesis by simp
qed

section \<open>The port check\<close>



















section \<open>Leaving the loop\<close>

lemma select_failed_append [simp]:
  "select_failed (a @ b) \<longleftrightarrow> select_failed a \<or> select_failed b"
  by (simp add: select_failed_def)

lemma selects_append [simp]: "selects (a @ b) = selects a + selects b"
  by (simp add: selects_def)

lemma rdp_iteration_blocked:
  assumes "rdp_iteration fds s e = (ev, None)"
  shows "ev = [] \<and> on_select e = SelectBlocks"
  using assms by (cases rule: rdp_iteration_cases[of fds s e]) auto

lemma rdp_iteration_return:
  assumes "rdp_iteration fds s e = (ev, Some (Return st))"
  shows "st = -1 \<and> (\<exists>nfds fdsr r fdsr'. ev = [Select nfds fdsr r fdsr'] \<and> r < 0)"
  using assms by (cases rule: rdp_iteration_cases[of fds s e]) auto

lemma rdp_iteration_next:
  assumes "rdp_iteration fds s e = (ev, Some (Next fds' s'))"
  shows "\<not> select_failed ev \<and> selects ev = 1"
  using assms
  by (cases rule: rdp_iteration_cases[of fds s e])
     (auto simp: select_failed_def selects_def)

lemma rdp_loop_exit_shape: "loop_exit (-1) (rdp_loop fds s sc)"
proof (induction sc arbitrary: fds s)
  case Nil
  obtain ev r where it: "rdp_iteration fds s idle = (ev, r)" by (cases "rdp_iteration fds s idle")
  show ?case
  proof (cases r)
    case None
    with it rdp_iteration_blocked[of fds s idle ev] show ?thesis
      by (simp add: rdp_loop_Nil[OF it] loop_exit_def select_failed_def)
  next
    case (Some x)
    show ?thesis
    proof (cases x)
      case (Return st)
      with Some it rdp_iteration_return[of fds s idle ev st] show ?thesis
        by (auto simp: rdp_loop_Nil[OF it] loop_exit_def select_failed_def)
    next
      case (Next fds' s')
      with Some it rdp_iteration_next[of fds s idle ev fds' s'] show ?thesis
        by (simp add: rdp_loop_Nil[OF it] loop_exit_def)
    qed
  qed
next
  case (Cons e es)
  obtain ev r where it: "rdp_iteration fds s e = (ev, r)" by (cases "rdp_iteration fds s e")
  show ?case
  proof (cases r)
    case None
    with it rdp_iteration_blocked[of fds s e ev] show ?thesis
      by (simp add: rdp_loop_block loop_exit_def select_failed_def)
  next
    case (Some x)
    show ?thesis
    proof (cases x)
      case (Return st)
      with Some it rdp_iteration_return[of fds s e ev st] show ?thesis
        by (auto simp: rdp_loop_exit loop_exit_def select_failed_def)
    next
      case (Next fds' s')
      with Some it have it': "rdp_iteration fds s e = (ev, Some (Next fds' s'))" by simp
      note n = rdp_iteration_next[OF it']
      obtain ev' out where l: "rdp_loop fds' s' es = (ev', out)" by (cases "rdp_loop fds' s' es")
      from Cons.IH[of fds' s'] l have ih: "loop_exit (-1) (ev', out)" by simp
      have "loop_exit (-1) (ev @ ev', out)"
        using ih n unfolding loop_exit_def
        by (auto simp: append_assoc[symmetric] simp del: append_assoc)
      then show ?thesis by (simp add: rdp_loop_next[OF it'] l)
    qed
  qed
qed

lemma rdp_iteration_ready:
  assumes "rdp_iteration fds s e = (ev, Some (Next fds' s'))"
  shows "\<exists>r. on_select e = SelectReady r"
  using assms
  by (cases "on_select e")
     (auto simp: rdp_iteration_unfold os_select_def split: if_splits prod.splits)

lemma rdp_loop_runs:
  "list_all (\<lambda>e. on_select e \<noteq> SelectBlocks) sc \<Longrightarrow> snd (rdp_loop fds s sc) = Waiting \<Longrightarrow>
     selects (fst (rdp_loop fds s sc)) = length sc"
proof (induction sc arbitrary: fds s)
  case Nil
  obtain ev r where it: "rdp_iteration fds s idle = (ev, r)" by (cases "rdp_iteration fds s idle")
  show ?case
  proof (cases r)
    case None
    with it rdp_iteration_blocked[of fds s idle ev] show ?thesis
      by (simp add: rdp_loop_Nil[OF it] selects_def)
  next
    case (Some x)
    show ?thesis
    proof (cases x)
      case (Return st)
      with Some it Nil.prems show ?thesis by (simp add: rdp_loop_Nil[OF it])
    next
      case (Next fds' s')
      with Some it rdp_iteration_ready[of fds s idle ev fds' s'] show ?thesis
        by (simp add: idle_def)
    qed
  qed
next
  case (Cons e es)
  obtain ev r where it: "rdp_iteration fds s e = (ev, r)" by (cases "rdp_iteration fds s e")
  show ?case
  proof (cases r)
    case None
    with it rdp_iteration_blocked[of fds s e ev] Cons.prems(1) show ?thesis by simp
  next
    case (Some x)
    show ?thesis
    proof (cases x)
      case (Return st)
      with Some it Cons.prems(2) show ?thesis by (simp add: rdp_loop_exit)
    next
      case (Next fds' s')
      with Some it have it': "rdp_iteration fds s e = (ev, Some (Next fds' s'))" by simp
      note n = rdp_iteration_next[OF it']
      from Cons.prems have "selects (fst (rdp_loop fds' s' es)) = length es"
        by (intro Cons.IH) (simp_all add: rdp_loop_next[OF it'])
      with n show ?thesis by (simp add: rdp_loop_next[OF it'])
    qed
  qed
qed

lemma rdp_loop_outcome:
  "(\<forall>st. snd (rdp_loop fds s sc) = Exited st \<longrightarrow>
      st = -1 \<and>
      (\<exists>pre nfds fdsr r fdsr'. fst (rdp_loop fds s sc) = pre @ [Select nfds fdsr r fdsr'] \<and>
         r < 0 \<and> \<not> select_failed pre)) \<and>
   (snd (rdp_loop fds s sc) = Waiting \<longleftrightarrow> \<not> select_failed (fst (rdp_loop fds s sc)))"
  using rdp_loop_exit_shape[of fds s sc]
  by (cases "rdp_loop fds s sc") (auto simp: loop_exit_def select_failed_def)

lemma dp_iteration_blocked:
  assumes "dp_iteration fds s e = (ev, None)"
  shows "ev = [] \<and> on_select e = SelectBlocks"
  using assms by (cases rule: dp_iteration_cases[of fds s e]) auto

lemma dp_iteration_return:
  assumes "dp_iteration fds s e = (ev, Some (Return st))"
  shows "st = 30 \<and> (\<exists>nfds fdsr r fdsr'. ev = [Select nfds fdsr r fdsr'] \<and> r < 0)"
  using assms by (cases rule: dp_iteration_cases[of fds s e]) auto

lemma dp_iteration_next:
  assumes "dp_iteration fds s e = (ev, Some (Next fds' s'))"
  shows "\<not> select_failed ev \<and> selects ev = 1"
  using assms
  by (cases rule: dp_iteration_cases[of fds s e])
     (auto simp: select_failed_def selects_def)

lemma dp_loop_exit_shape: "loop_exit 30 (dp_loop fds s sc)"
proof (induction sc arbitrary: fds s)
  case Nil
  obtain ev r where it: "dp_iteration fds s idle = (ev, r)" by (cases "dp_iteration fds s idle")
  show ?case
  proof (cases r)
    case None
    with it dp_iteration_blocked[of fds s idle ev] show ?thesis
      by (simp add: dp_loop_Nil[OF it] loop_exit_def select_failed_def)
  next
    case (Some x)
    show ?thesis
    proof (cases x)
      case (Return st)
      with Some it dp_iteration_return[of fds s idle ev st] show ?thesis
        by (auto simp: dp_loop_Nil[OF it] loop_exit_def select_failed_def)
    next
      case (Next fds' s')
      with Some it dp_iteration_next[of fds s idle ev fds' s'] show ?thesis
        by (simp add: dp_loop_Nil[OF it] loop_exit_def)
    qed
  qed
next
  case (Cons e es)
  obtain ev r where it: "dp_iteration fds s e = (ev, r)" by (cases "dp_iteration fds s e")
  show ?case
  proof (cases r)
    case None
    with it dp_iteration_blocked[of fds s e ev] show ?thesis
      by (simp add: dp_loop_block loop_exit_def select_failed_def)
  next
    case (Some x)
    show ?thesis
    proof (cases x)
      case (Return st)
      with Some it dp_iteration_return[of fds s e ev st] show ?thesis
        by (auto simp: dp_loop_exit loop_exit_def select_failed_def)
    next
      case (Next fds' s')
      with Some it have it': "dp_iteration fds s e = (ev, Some (Next fds' s'))" by simp
      note n = dp_iteration_next[OF it']
      obtain ev' out where l: "dp_loop fds' s' es = (ev', out)" by (cases "dp_loop fds' s' es")
      from Cons.IH[of fds' s'] l have ih: "loop_exit 30 (ev', out)" by simp
      have "loop_exit 30 (ev @ ev', out)"
        using ih n unfolding loop_exit_def
        by (auto simp: append_assoc[symmetric] simp del: append_assoc)
      then show ?thesis by (simp add: dp_loop_next[OF it'] l)
    qed
  qed
qed

lemma dp_iteration_ready:
  assumes "dp_iteration fds s e = (ev, Some (Next fds' s'))"
  shows "\<exists>r. on_select e = SelectReady r"
  using assms
  by (cases "on_select e")
     (auto simp: dp_iteration_unfold os_select_def split: if_splits prod.splits)

lemma dp_loop_runs:
  "list_all (\<lambda>e. on_select e \<noteq> SelectBlocks) sc \<Longrightarrow> snd (dp_loop fds s sc) = Waiting \<Longrightarrow>
     selects (fst (dp_loop fds s sc)) = length sc"
proof (induction sc arbitrary: fds s)
  case Nil
  obtain ev r where it: "dp_iteration fds s idle = (ev, r)" by (cases "dp_iteration fds s idle")
  show ?case
  proof (cases r)
    case None
    with it dp_iteration_blocked[of fds s idle ev] show ?thesis
      by (simp add: dp_loop_Nil[OF it] selects_def)
  next
    case (Some x)
    show ?thesis
    proof (cases x)
      case (Return st)
      with Some it Nil.prems show ?thesis by (simp add: dp_loop_Nil[OF it])
    next
      case (Next fds' s')
      with Some it dp_iteration_ready[of fds s idle ev fds' s'] show ?thesis
        by (simp add: idle_def)
    qed
  qed
next
  case (Cons e es)
  obtain ev r where it: "dp_iteration fds s e = (ev, r)" by (cases "dp_iteration fds s e")
  show ?case
  proof (cases r)
    case None
    with it dp_iteration_blocked[of fds s e ev] Cons.prems(1) show ?thesis by simp
  next
    case (Some x)
    show ?thesis
    proof (cases x)
      case (Return st)
      with Some it Cons.prems(2) show ?thesis by (simp add: dp_loop_exit)
    next
      case (Next fds' s')
      with Some it have it': "dp_iteration fds s e = (ev, Some (Next fds' s'))" by simp
      note n = dp_iteration_next[OF it']
      from Cons.prems have "selects (fst (dp_loop fds' s' es)) = length es"
        by (intro Cons.IH) (simp_all add: dp_loop_next[OF it'])
      with n show ?thesis by (simp add: dp_loop_next[OF it'])
    qed
  qed
qed

lemma dp_loop_outcome:
  "(\<forall>st. snd (dp_loop fds s sc) = Exited st \<longrightarrow>
      st = 30 \<and>
      (\<exists>pre nfds fdsr r fdsr'. fst (dp_loop fds s sc) = pre @ [Select nfds fdsr r fdsr'] \<and>
         r < 0 \<and> \<not> select_failed pre)) \<and>
   (snd (dp_loop fds s sc) = Waiting \<longleftrightarrow> \<not> select_failed (fst (dp_loop fds s sc)))"
  using dp_loop_exit_shape[of fds s sc]
  by (cases "dp_loop fds s sc") (auto simp: loop_exit_def select_failed_def)

text \<open>
  C7. A run of the polling loop has returned only if its last event is a \<^verbatim>\<open>select\<close> that
  returned less than zero, and then \<^verbatim>\<open>main\<close> returned -1 (revdatapipe.c) or 30
  (datapipe.c), never 0: the \<^verbatim>\<open>return 0\<close> after the loop is not reached. As long as no
  \<^verbatim>\<open>select\<close> has failed the process is still in the loop, and it has made one pass for
  every answer the environment has given (unless \<^verbatim>\<open>select\<close> never returned).
\<close>

theorem loop_never_ends_normally:
  "(\<forall>st. snd (rdp_loop fds s sc) = Exited st \<longrightarrow>
      st = -1 \<and>
      (\<exists>pre nfds fdsr r fdsr'. fst (rdp_loop fds s sc) = pre @ [Select nfds fdsr r fdsr'] \<and>
         r < 0 \<and> \<not> select_failed pre)) \<and>
   (snd (rdp_loop fds s sc) = Waiting \<longleftrightarrow> \<not> select_failed (fst (rdp_loop fds s sc))) \<and>
   (list_all (\<lambda>e. on_select e \<noteq> SelectBlocks) sc \<and> snd (rdp_loop fds s sc) = Waiting \<longrightarrow>
      selects (fst (rdp_loop fds s sc)) = length sc) \<and>
   (\<forall>st. snd (dp_loop fds t sc) = Exited st \<longrightarrow>
      st = 30 \<and>
      (\<exists>pre nfds fdsr r fdsr'. fst (dp_loop fds t sc) = pre @ [Select nfds fdsr r fdsr'] \<and>
         r < 0 \<and> \<not> select_failed pre)) \<and>
   (snd (dp_loop fds t sc) = Waiting \<longleftrightarrow> \<not> select_failed (fst (dp_loop fds t sc))) \<and>
   (list_all (\<lambda>e. on_select e \<noteq> SelectBlocks) sc \<and> snd (dp_loop fds t sc) = Waiting \<longrightarrow>
      selects (fst (dp_loop fds t sc)) = length sc)"
  using rdp_loop_outcome[of fds s sc] dp_loop_outcome[of fds t sc]
    rdp_loop_runs[of sc fds s] dp_loop_runs[of sc fds t]
  by blast

theorem loop_never_ends_normally_witness:
  "rdp_loop ex_fds ex_rdp [ex_pass, ex_back] =
     ([Select 5 [3, 4] 2 [3, 4], Recv 3 4096 2 [104, 105], Send 4 [104, 105] 2,
       Select 5 [3, 4] 1 [4], Recv 4 4096 3 [111, 107, 33], Send 3 [111, 107, 33] 3], Waiting) \<and>
   list_all (\<lambda>e. on_select e \<noteq> SelectBlocks) [ex_pass, ex_back] \<and>
   selects (fst (rdp_loop ex_fds ex_rdp [ex_pass, ex_back])) = 2 \<and>
   dp_loop ex_fds ex_dp [ex_eof, ex_back] =
     ([Select 5 [3, 4] 1 [3], Recv 3 4096 0 [], Close 3, Close 4,
       Select 5 [3, 4] (-1) [3, 4]], Exited 30) \<and>
   select_failed (fst (dp_loop ex_fds ex_dp [ex_eof, ex_back]))"
proof -
  have a: "rdp_loop ex_fds ex_rdp [ex_pass, ex_back] =
     ([Select 5 [3, 4] 2 [3, 4], Recv 3 4096 2 [104, 105], Send 4 [104, 105] 2,
       Select 5 [3, 4] 1 [4], Recv 4 4096 3 [111, 107, 33], Send 3 [111, 107, 33] 3], Waiting)"
    by (simp add: rdp_loop.simps model_defs example_defs)
  have b: "dp_loop ex_fds ex_dp [ex_eof, ex_back] =
     ([Select 5 [3, 4] 1 [3], Recv 3 4096 0 [], Close 3, Close 4,
       Select 5 [3, 4] (-1) [3, 4]], Exited 30)"
    by (simp add: dp_loop.simps model_defs example_defs)
  have c: "list_all (\<lambda>e. on_select e \<noteq> SelectBlocks) [ex_pass, ex_back]"
    by (simp add: example_defs)
  note th = loop_never_ends_normally[of ex_fds ex_rdp "[ex_pass, ex_back]" ex_dp]
  have d: "selects (fst (rdp_loop ex_fds ex_rdp [ex_pass, ex_back])) = 2"
    using th a c by simp
  note th' = loop_never_ends_normally[of ex_fds ex_rdp "[ex_eof, ex_back]" ex_dp]
  have e: "select_failed (fst (dp_loop ex_fds ex_dp [ex_eof, ex_back]))"
    using th' b by simp
  from a b c d e show ?thesis by simp
qed

section \<open>The buffer\<close>

lemma rdp_iteration_bounded:
  assumes "rdp_iteration fds s e = (ev, r)" "bounded_io ev'"
  shows "bounded_io (ev @ ev')"
  using assms
  by (cases rule: rdp_iteration_cases[of fds s e])
     (auto simp: sizeof_buf_def)

lemma rdp_loop_bounded: "bounded_io (fst (rdp_loop fds s sc))"
proof (induction sc arbitrary: fds s)
  case Nil
  obtain ev r where it: "rdp_iteration fds s idle = (ev, r)" by (cases "rdp_iteration fds s idle")
  from rdp_iteration_bounded[OF it, of "[]"] show ?case
    by (simp add: rdp_loop_Nil[OF it])
next
  case (Cons e es)
  obtain ev r where it: "rdp_iteration fds s e = (ev, r)" by (cases "rdp_iteration fds s e")
  show ?case
  proof (cases r)
    case None
    with it rdp_iteration_bounded[OF it, of "[]"] show ?thesis
      by (simp add: rdp_loop_block)
  next
    case (Some x)
    show ?thesis
    proof (cases x)
      case (Return st)
      with Some it rdp_iteration_bounded[OF it, of "[]"] show ?thesis
        by (simp add: rdp_loop_exit)
    next
      case (Next fds' s')
      with Some it have it': "rdp_iteration fds s e = (ev, Some (Next fds' s'))" by simp
      from rdp_iteration_bounded[OF it' Cons.IH[of fds' s']] show ?thesis
        by (simp add: rdp_loop_next[OF it'])
    qed
  qed
qed

lemma rdp_service_length:
  assumes "rdp_service fds s fdsr e = (ev, s')" "sizeof_buf \<le> length (buf s)"
  shows "length (buf s') = length (buf s)"
  using assms
  by (auto simp: rdp_service_def split: if_splits prod.splits dest: recv_or_send_length)

lemma rdp_iteration_length:
  assumes "rdp_iteration fds s e = (ev, Some (Next fds' s'))" "sizeof_buf \<le> length (buf s)"
  shows "length (buf s') = length (buf s)"
  using assms
  by (auto simp: rdp_iteration_unfold split: option.splits prod.splits if_splits
      dest: rdp_service_length)

lemma rdp_iteration_send:
  assumes "rdp_iteration fds s e = (ev, r)" "Send fd d k \<in> set ev"
  shows "\<exists>src n. Recv src sizeof_buf n d \<in> set ev \<and> 0 < n \<and> n \<le> int sizeof_buf"
  using assms
  by (cases rule: rdp_iteration_cases[of fds s e]) auto

lemma rdp_iteration_buffer:
  assumes "rdp_iteration fds s e = (ev, Some (Next fds' s'))" "length (buf s) = 4096"
  shows "length (buf s') = 4096 \<and>
         (\<forall>fd d k. Send fd d k \<in> set ev \<longrightarrow>
            d = take (length d) (buf s') \<and> 1 \<le> length d \<and> length d \<le> 4096)"
proof -
  have len: "length (buf s') = 4096"
    using rdp_iteration_length[OF assms(1)] assms(2) by (simp add: sizeof_buf_def)
  have "d = take (length d) (buf s') \<and> 1 \<le> length d \<and> length d \<le> 4096"
    if "Send fd d k \<in> set ev" for fd d k
  proof -
    from rdp_iteration_send[OF assms(1) that]
    obtain src n where r: "Recv src sizeof_buf n d \<in> set ev" "0 < n" "n \<le> int sizeof_buf"
      by blast
    from rdp_iteration_recv[OF assms(1) r(1,2)]
    have "d = take (nat n) (buf s')" "int (length d) = n" by auto
    with r(2,3) show ?thesis by (auto simp: sizeof_buf_def)
  qed
  with len show ?thesis by blast
qed

lemma dp_iteration_bounded:
  assumes "dp_iteration fds s e = (ev, r)" "bounded_io ev'"
  shows "bounded_io (ev @ ev')"
  using assms
  by (cases rule: dp_iteration_cases[of fds s e])
     (auto simp: sizeof_buf_def)

lemma dp_loop_bounded: "bounded_io (fst (dp_loop fds s sc))"
proof (induction sc arbitrary: fds s)
  case Nil
  obtain ev r where it: "dp_iteration fds s idle = (ev, r)" by (cases "dp_iteration fds s idle")
  from dp_iteration_bounded[OF it, of "[]"] show ?case
    by (simp add: dp_loop_Nil[OF it])
next
  case (Cons e es)
  obtain ev r where it: "dp_iteration fds s e = (ev, r)" by (cases "dp_iteration fds s e")
  show ?case
  proof (cases r)
    case None
    with it dp_iteration_bounded[OF it, of "[]"] show ?thesis
      by (simp add: dp_loop_block)
  next
    case (Some x)
    show ?thesis
    proof (cases x)
      case (Return st)
      with Some it dp_iteration_bounded[OF it, of "[]"] show ?thesis
        by (simp add: dp_loop_exit)
    next
      case (Next fds' s')
      with Some it have it': "dp_iteration fds s e = (ev, Some (Next fds' s'))" by simp
      from dp_iteration_bounded[OF it' Cons.IH[of fds' s']] show ?thesis
        by (simp add: dp_loop_next[OF it'])
    qed
  qed
qed

lemma dp_service_length:
  assumes "dp_service fds s fdsr e = (ev, s', cn)" "sizeof_buf \<le> length (buf s)"
  shows "length (buf s') = length (buf s)"
  using assms
  by (auto simp: dp_service_def split: if_splits prod.splits dest: recv_or_send_length)

lemma dp_iteration_length:
  assumes "dp_iteration fds s e = (ev, Some (Next fds' s'))" "sizeof_buf \<le> length (buf s)"
  shows "length (buf s') = length (buf s)"
  using assms
  by (auto simp: dp_iteration_unfold split: option.splits prod.splits if_splits
      dest: dp_service_length)

lemma dp_iteration_send:
  assumes "dp_iteration fds s e = (ev, r)" "Send fd d k \<in> set ev"
  shows "\<exists>src n. Recv src sizeof_buf n d \<in> set ev \<and> 0 < n \<and> n \<le> int sizeof_buf"
  using assms
  by (cases rule: dp_iteration_cases[of fds s e]) auto

lemma dp_iteration_buffer:
  assumes "dp_iteration fds s e = (ev, Some (Next fds' s'))" "length (buf s) = 4096"
  shows "length (buf s') = 4096 \<and>
         (\<forall>fd d k. Send fd d k \<in> set ev \<longrightarrow>
            d = take (length d) (buf s') \<and> 1 \<le> length d \<and> length d \<le> 4096)"
proof -
  have len: "length (buf s') = 4096"
    using dp_iteration_length[OF assms(1)] assms(2) by (simp add: sizeof_buf_def)
  have "d = take (length d) (buf s') \<and> 1 \<le> length d \<and> length d \<le> 4096"
    if "Send fd d k \<in> set ev" for fd d k
  proof -
    from dp_iteration_send[OF assms(1) that]
    obtain src n where r: "Recv src sizeof_buf n d \<in> set ev" "0 < n" "n \<le> int sizeof_buf"
      by blast
    from dp_iteration_recv[OF assms(1) r(1,2)]
    have "d = take (nat n) (buf s')" "int (length d) = n" by auto
    with r(2,3) show ?thesis by (auto simp: sizeof_buf_def)
  qed
  with len show ?thesis by blast
qed

text \<open>
  C9. In every run of the polling loop, in either program, each read asks for 4096
  bytes, the size of \<^verbatim>\<open>buf\<close>; a write happens only right after a read that returned a
  count \<open>n\<close> with \<open>1 \<le> n \<le> 4096\<close>, and it is handed exactly the \<open>n\<close> bytes that read
  stored. Within a pass the buffer keeps its 4096 bytes, and what is written is the
  buffer's first \<open>n\<close> bytes, nothing beyond.
\<close>

theorem buffer_bounds:
  "bounded_io (fst (rdp_loop fds s sc)) \<and>
   bounded_io (fst (dp_loop fds t sc)) \<and>
   (rdp_iteration fds s e = (ev, Some (Next fds' s')) \<and> length (buf s) = 4096 \<longrightarrow>
      length (buf s') = 4096 \<and>
      (\<forall>fd d k. Send fd d k \<in> set ev \<longrightarrow>
         d = take (length d) (buf s') \<and> 1 \<le> length d \<and> length d \<le> 4096)) \<and>
   (dp_iteration fds t e = (ev, Some (Next fds' t')) \<and> length (buf t) = 4096 \<longrightarrow>
      length (buf t') = 4096 \<and>
      (\<forall>fd d k. Send fd d k \<in> set ev \<longrightarrow>
         d = take (length d) (buf t') \<and> 1 \<le> length d \<and> length d \<le> 4096))"
  using rdp_loop_bounded[of fds s sc] dp_loop_bounded[of fds t sc]
    rdp_iteration_buffer[of fds s e ev fds' s'] dp_iteration_buffer[of fds t e ev fds' t']
  by blast

text \<open>More bytes are available than the buffer holds: the read stores 4096 of them.\<close>

theorem buffer_bounds_witness:
  "dp_iteration ex_fds ex_dp
     \<lparr>on_select = SelectReady [4], on_recv = RecvBytes (replicate 5000 7),
      on_send = SendTakes 5000\<rparr> =
     ([Select 5 [3, 4] 1 [4], Recv 4 4096 4096 (replicate 4096 7),
       Send 3 (replicate 4096 7) 4096],
      Some (Next ex_fds (ex_dp\<lparr>buf := replicate 4096 7\<rparr>))) \<and>
   length (buf ex_dp) = 4096 \<and>
   Send 3 (replicate 4096 7) 4096 \<in>
     set [Select 5 [3, 4] 1 [4], Recv 4 4096 4096 (replicate 4096 7),
       Send 3 (replicate 4096 7) 4096] \<and>
   length (buf (ex_dp\<lparr>buf := replicate 4096 7\<rparr>)) = 4096 \<and>
   length (replicate 4096 (7 :: byte)) \<le> 4096 \<and>
   bounded_io (fst (rdp_loop ex_fds ex_rdp [ex_pass, ex_eof, ex_back])) \<and>
   fst (rdp_loop ex_fds ex_rdp [ex_pass, ex_eof, ex_back]) =
     [Select 5 [3, 4] 2 [3, 4], Recv 3 4096 2 [104, 105], Send 4 [104, 105] 2,
      Select 5 [3, 4] 1 [3], Recv 3 4096 0 [], Close 3, Close 4,
      Select 5 [3, 4] (-1) [3, 4]]"
proof -
  have a: "dp_iteration ex_fds ex_dp
     \<lparr>on_select = SelectReady [4], on_recv = RecvBytes (replicate 5000 7),
      on_send = SendTakes 5000\<rparr> =
     ([Select 5 [3, 4] 1 [4], Recv 4 4096 4096 (replicate 4096 7),
       Send 3 (replicate 4096 7) 4096],
      Some (Next ex_fds (ex_dp\<lparr>buf := replicate 4096 7\<rparr>)))"
    by (simp add: model_defs example_defs)
  have b: "length (buf ex_dp) = 4096" by (simp add: ex_dp_def)
  have c: "fst (rdp_loop ex_fds ex_rdp [ex_pass, ex_eof, ex_back]) =
     [Select 5 [3, 4] 2 [3, 4], Recv 3 4096 2 [104, 105], Send 4 [104, 105] 2,
      Select 5 [3, 4] 1 [3], Recv 3 4096 0 [], Close 3, Close 4,
      Select 5 [3, 4] (-1) [3, 4]]"
    by (simp add: rdp_loop.simps model_defs example_defs)
  note th = buffer_bounds[of ex_fds ex_rdp "[ex_pass, ex_eof, ex_back]" ex_dp
      "\<lparr>on_select = SelectReady [4], on_recv = RecvBytes (replicate 5000 7),
        on_send = SendTakes 5000\<rparr>"
      "[Select 5 [3, 4] 1 [4], Recv 4 4096 4096 (replicate 4096 7),
        Send 3 (replicate 4096 7) 4096]"
      ex_fds _ "ex_dp\<lparr>buf := replicate 4096 7\<rparr>"]
  have d: "bounded_io (fst (rdp_loop ex_fds ex_rdp [ex_pass, ex_eof, ex_back]))"
    using th by blast
  have e: "length (buf (ex_dp\<lparr>buf := replicate 4096 7\<rparr>)) = 4096"
    using th a b by blast
  from a b c d e show ?thesis by simp
qed

section \<open>The two programs agree\<close>

lemma truncate_sel [simp]:
  "buf (locals.truncate s) = buf s" "sockfd (locals.truncate s) = sockfd s"
  "maxsock (locals.truncate s) = maxsock s"
  by (simp_all add: locals.truncate_def)

lemma truncate_upd [simp]:
  "locals.truncate (s\<lparr>buf := b\<rparr>) = (locals.truncate s)\<lparr>buf := b\<rparr>"
  "locals.truncate (s\<lparr>sockfd := f\<rparr>) = (locals.truncate s)\<lparr>sockfd := f\<rparr>"
  "locals.truncate (s\<lparr>maxsock := m\<rparr>) = (locals.truncate s)\<lparr>maxsock := m\<rparr>"
  "locals.truncate (r\<lparr>nbyt := n\<rparr>) = locals.truncate r"
  "locals.truncate (r\<lparr>closeneeded := c\<rparr>) = locals.truncate r"
  for r :: rdp_locals
  by (simp_all add: locals.truncate_def)

lemma dial_sim:
  "dp_dial i argv e fds (locals.truncate s) =
     (fst (rdp_dial i argv e fds s),
      dp_result (if port_of argv i = 0 \<or> addr_of e argv i = None then 25 else -1)
        (snd (rdp_dial i argv e fds s)))"
  by (simp add: dp_dial_unfold rdp_dial_unfold split: option.split)

lemma for_sim:
  "dp_for 0 argv e fds (locals.truncate s) =
     (fst (rdp_for 0 argv e fds s),
      dp_result (if dial_fatal argv e 0 then
                   (if port_of argv 0 = 0 \<or> addr_of e argv 0 = None then 25 else -1)
                 else (if port_of argv 1 = 0 \<or> addr_of e argv 1 = None then 25 else -1))
        (snd (rdp_for 0 argv e fds s)))"
  by (simp add: dp_for_unfold rdp_for_unfold dp_dial_unfold rdp_dial_unfold dial_fatal_def
      split: option.split)

lemma service_sim:
  "dp_service fds (locals.truncate s) fdsr e =
     (fst (rdp_service fds (s\<lparr>nbyt := 0, closeneeded := 0\<rparr>) fdsr e),
      locals.truncate (snd (rdp_service fds (s\<lparr>nbyt := 0, closeneeded := 0\<rparr>) fdsr e)),
      closeneeded (snd (rdp_service fds (s\<lparr>nbyt := 0, closeneeded := 0\<rparr>) fdsr e)))"
  by (simp add: dp_service_def rdp_service_def split: prod.split)

lemma iteration_sim:
  "dp_iteration fds (locals.truncate s) e =
     (fst (rdp_iteration fds s e), map_option (dp_result 30) (snd (rdp_iteration fds s e)))"
proof -
  have ps: "poll_set (locals.truncate s) = poll_set s" by (simp add: poll_set_def)
  have cb: "closed_both fds (locals.truncate x) = closed_both fds x" for x :: rdp_locals
    by (simp add: closed_both_def)
  show ?thesis
    by (simp add: dp_iteration_unfold rdp_iteration_unfold service_sim ps cb
        split: option.split prod.split)
qed

lemma loop_sim:
  "dp_loop fds (locals.truncate s) sc =
     (fst (rdp_loop fds s sc), dp_outcome (snd (rdp_loop fds s sc)))"
proof (induction sc arbitrary: fds s)
  case Nil
  obtain ev r where it: "rdp_iteration fds s idle = (ev, r)" by (cases "rdp_iteration fds s idle")
  then have dit: "dp_iteration fds (locals.truncate s) idle = (ev, map_option (dp_result 30) r)"
    by (simp add: iteration_sim)
  show ?case
    unfolding rdp_loop_Nil[OF it] dp_loop_Nil[OF dit]
    by (cases r rule: option.exhaust; simp split: result.split)
next
  case (Cons e es)
  obtain ev r where it: "rdp_iteration fds s e = (ev, r)" by (cases "rdp_iteration fds s e")
  then have dit: "dp_iteration fds (locals.truncate s) e = (ev, map_option (dp_result 30) r)"
    by (simp add: iteration_sim)
  show ?case
  proof (cases r)
    case None
    with it dit show ?thesis by (simp add: rdp_loop_block dp_loop_block)
  next
    case (Some x)
    show ?thesis
    proof (cases x)
      case (Return st)
      with Some it dit show ?thesis by (simp add: rdp_loop_exit dp_loop_exit)
    next
      case (Next fds' s')
      with Some it dit have a: "rdp_iteration fds s e = (ev, Some (Next fds' s'))"
        and b: "dp_iteration fds (locals.truncate s) e = (ev, Some (Next fds' (locals.truncate s')))"
        by simp_all
      show ?thesis
        unfolding rdp_loop_next[OF a] dp_loop_next[OF b] Cons.IH[of fds' s'] by simp
    qed
  qed
qed

lemma without_fork_append [simp]:
  "without_fork (a @ b) = without_fork a @ without_fork b"
  by (simp add: without_fork_def)

lemma without_fork_id: "list_all (\<lambda>x. \<not> dp_only x) ev \<Longrightarrow> without_fork ev = ev"
  by (simp add: without_fork_def list_all_iff)

lemma rdp_iteration_no_fork:
  assumes "rdp_iteration fds s e = (ev, r)"
  shows "list_all (\<lambda>x. \<not> dp_only x) ev"
  using assms by (cases rule: rdp_iteration_cases[of fds s e]) auto

lemma rdp_loop_no_fork: "list_all (\<lambda>x. \<not> dp_only x) (fst (rdp_loop fds s sc))"
proof (induction sc arbitrary: fds s)
  case Nil
  obtain ev r where it: "rdp_iteration fds s idle = (ev, r)" by (cases "rdp_iteration fds s idle")
  from rdp_iteration_no_fork[OF it] show ?case by (simp add: rdp_loop_Nil[OF it])
next
  case (Cons e es)
  obtain ev r where it: "rdp_iteration fds s e = (ev, r)" by (cases "rdp_iteration fds s e")
  note nf = rdp_iteration_no_fork[OF it]
  show ?case
  proof (cases r)
    case None
    with it nf show ?thesis by (simp add: rdp_loop_block)
  next
    case (Some x)
    show ?thesis
    proof (cases x)
      case (Return st)
      with Some it nf show ?thesis by (simp add: rdp_loop_exit)
    next
      case (Next fds' s')
      with Some it have a: "rdp_iteration fds s e = (ev, Some (Next fds' s'))" by simp
      from nf Cons.IH[of fds' s'] show ?thesis by (simp add: rdp_loop_next[OF a])
    qed
  qed
qed

lemma rdp_for_no_fork: "list_all (\<lambda>x. \<not> dp_only x) (fst (rdp_for 0 argv e fds s))"
  by (simp add: rdp_for_unfold rdp_dial_unfold split: option.split)

lemma for_agree:
  "fst (dp_for 0 argv e fds (locals.truncate s)) = fst (rdp_for 0 argv e fds s) \<and>
   setup_agree (snd (dp_for 0 argv e fds (locals.truncate s))) (snd (rdp_for 0 argv e fds s))"
  by (simp add: dp_for_unfold rdp_for_unfold dp_dial_unfold rdp_dial_unfold split: option.split)

lemma main_child_agree:
  assumes "fork_ret e = 0"
  shows "without_fork (fst (dp_main argv e (locals.truncate s))) = fst (rdp_main argv e s) \<and>
         status_agree (snd (dp_main argv e (locals.truncate s))) (snd (rdp_main argv e s))"
proof (cases "length argv = 5")
  case False
  then show ?thesis by (simp add: dp_main_def rdp_main_def without_fork_def)
next
  case True
  obtain ev x where f: "rdp_for 0 argv e (open_fds e) (s\<lparr>maxsock := 0\<rparr>) = (ev, x)"
    by (cases "rdp_for 0 argv e (open_fds e) (s\<lparr>maxsock := 0\<rparr>)")
  from for_agree[of argv e "open_fds e" "s\<lparr>maxsock := 0\<rparr>"] f
  obtain y where g: "dp_for 0 argv e (open_fds e) ((locals.truncate s)\<lparr>maxsock := 0\<rparr>) = (ev, y)"
    and a: "setup_agree y x"
    by (cases "dp_for 0 argv e (open_fds e) ((locals.truncate s)\<lparr>maxsock := 0\<rparr>)") simp
  have nf: "without_fork ev = ev"
    using rdp_for_no_fork[of argv e "open_fds e" "s\<lparr>maxsock := 0\<rparr>"] f
    by (simp add: without_fork_id)
  show ?thesis
  proof (cases x)
    case (Return b)
    with a obtain c where "y = Return c" "b = -1" "c = 25 \<or> c = -1" by (cases y) auto
    with True f g Return nf show ?thesis by (auto simp: dp_main_def rdp_main_def)
  next
    case (Next fds1 s1)
    with a have y: "y = Next fds1 (locals.truncate s1)" by (cases y) auto
    have l: "dp_loop fds1 (locals.truncate s1) (script e) =
        (fst (rdp_loop fds1 (s1\<lparr>closeneeded := 0\<rparr>) (script e)),
         dp_outcome (snd (rdp_loop fds1 (s1\<lparr>closeneeded := 0\<rparr>) (script e))))"
      using loop_sim[of fds1 "s1\<lparr>closeneeded := 0\<rparr>" "script e"] by simp
    have lf: "without_fork (fst (rdp_loop fds1 (s1\<lparr>closeneeded := 0\<rparr>) (script e))) =
        fst (rdp_loop fds1 (s1\<lparr>closeneeded := 0\<rparr>) (script e))"
      by (rule without_fork_id) (rule rdp_loop_no_fork)
    have st: "status_agree (dp_outcome out) out" if "loop_exit (-1) (ev', out)" for ev' out
      using that by (cases out) (auto simp: loop_exit_def)
    have sa: "status_agree (dp_outcome (snd (rdp_loop fds1 (s1\<lparr>closeneeded := 0\<rparr>) (script e))))
        (snd (rdp_loop fds1 (s1\<lparr>closeneeded := 0\<rparr>) (script e)))"
      using rdp_loop_exit_shape[of fds1 "s1\<lparr>closeneeded := 0\<rparr>" "script e"]
      by (cases "rdp_loop fds1 (s1\<lparr>closeneeded := 0\<rparr>) (script e)") (simp add: st)
    show ?thesis
      using True f g y Next assms nf lf sa
      by (auto simp: dp_main_def rdp_main_def l without_fork_def split: prod.split)
  qed
qed

lemma main_parent:
  assumes "length argv = 5" "\<not> dial_fatal argv e 0" "\<not> dial_fatal argv e 1"
    "fork_ret e = -1 \<or> 0 < fork_ret e"
  shows "dp_main argv e (locals.truncate s) =
           (fst (rdp_for 0 argv e (open_fds e) (s\<lparr>maxsock := 0\<rparr>)) @
              (if fork_ret e = -1 then [Fork (-1), Perror ''fork''] else [Fork (fork_ret e)]),
            Exited (if fork_ret e = -1 then 20 else 0))"
proof -
  from rdp_for_fatal[of argv e "open_fds e" "s\<lparr>maxsock := 0\<rparr>"] assms(2,3)
  obtain ev fds1 s1 where f: "rdp_for 0 argv e (open_fds e) (s\<lparr>maxsock := 0\<rparr>) = (ev, Next fds1 s1)"
    by (cases "rdp_for 0 argv e (open_fds e) (s\<lparr>maxsock := 0\<rparr>)"; 
        cases "snd (rdp_for 0 argv e (open_fds e) (s\<lparr>maxsock := 0\<rparr>))") auto
  from for_agree[of argv e "open_fds e" "s\<lparr>maxsock := 0\<rparr>"] f
  have g: "dp_for 0 argv e (open_fds e) ((locals.truncate s)\<lparr>maxsock := 0\<rparr>) =
      (ev, Next fds1 (locals.truncate s1))"
    by (cases "dp_for 0 argv e (open_fds e) ((locals.truncate s)\<lparr>maxsock := 0\<rparr>)";
        cases "snd (dp_for 0 argv e (open_fds e) ((locals.truncate s)\<lparr>maxsock := 0\<rparr>))") auto
  show ?thesis using assms(1,4) f g by (auto simp: dp_main_def)
qed

text \<open>
  C10. Started on the same arguments, in the same environment and with the same
  contents of the common variables, the two programs agree: the dialling loops make
  the same calls with the same results and leave the same descriptor table and the
  same \<^verbatim>\<open>sockfd\<close>, \<^verbatim>\<open>maxsock\<close> and \<^verbatim>\<open>buf\<close>, or both return (datapipe.c 25 or -1 where
  revdatapipe.c returns -1); the polling loops make the same calls and transfer the
  same bytes, and return together (30 against -1). For the whole of \<^verbatim>\<open>main\<close>, in the
  child that \<^verbatim>\<open>fork\<close> leaves, the events of datapipe.c without \<^verbatim>\<open>fork\<close> and \<^verbatim>\<open>setsid\<close>
  are the events of revdatapipe.c, and the outcomes agree up to the return value. When
  \<^verbatim>\<open>fork\<close> fails or returns in the parent, datapipe.c has made the calls of the
  dialling loop and returns 20 or 0.
\<close>

theorem variants_agree:
  "fst (dp_for 0 argv e fds (locals.truncate s)) = fst (rdp_for 0 argv e fds s) \<and>
   setup_agree (snd (dp_for 0 argv e fds (locals.truncate s))) (snd (rdp_for 0 argv e fds s)) \<and>
   dp_iteration fds (locals.truncate s) ie =
     (fst (rdp_iteration fds s ie), map_option (dp_result 30) (snd (rdp_iteration fds s ie))) \<and>
   dp_loop fds (locals.truncate s) sc =
     (fst (rdp_loop fds s sc), dp_outcome (snd (rdp_loop fds s sc))) \<and>
   (fork_ret e = 0 \<longrightarrow>
      without_fork (fst (dp_main argv e (locals.truncate s))) = fst (rdp_main argv e s) \<and>
      status_agree (snd (dp_main argv e (locals.truncate s))) (snd (rdp_main argv e s))) \<and>
   (length argv = 5 \<and> \<not> dial_fatal argv e 0 \<and> \<not> dial_fatal argv e 1 \<and>
      (fork_ret e = -1 \<or> 0 < fork_ret e) \<longrightarrow>
      dp_main argv e (locals.truncate s) =
        (fst (rdp_for 0 argv e (open_fds e) (s\<lparr>maxsock := 0\<rparr>)) @
           (if fork_ret e = -1 then [Fork (-1), Perror ''fork''] else [Fork (fork_ret e)]),
         Exited (if fork_ret e = -1 then 20 else 0)))"
  using for_agree[of argv e fds s] iteration_sim[of fds s ie] loop_sim[of fds s sc]
    main_child_agree[of e argv s] main_parent[of argv e s]
  by blast

lemma ex_end_sel: "socket_ok ex_env_end i" "connect_ret ex_env_end i = 0"
  "open_fds ex_env_end = [0, 1, 2]" "script ex_env_end = [ex_pass, ex_eof]"
  "fork_ret ex_env_end = 0"
  by (simp_all add: ex_env_end_def)

lemma ex_end_addrs: "addr_of ex_env_end ex_argv 0 = Some 0x0100000A"
  "addr_of ex_env_end ex_argv 1 = Some 0x0200000A"
  by (simp_all add: addr_of_def ex_argv_def ex_env_end_def libc_defs)

lemma ex_end_rdp_for:
  "rdp_for 0 ex_argv ex_env_end [0, 1, 2] (ex_rdp\<lparr>maxsock := 0\<rparr>) =
     ([Socket 3, Connect 3 20480 0x0100000A 0, Socket 4, Connect 4 20736 0x0200000A 0],
      Next [4, 3, 0, 1, 2] ex_rdp)"
  by (simp add: rdp_for_unfold rdp_dial_unfold ex_ports ex_end_addrs ex_new_fd
      ex_end_sel ex_rdp_def fun_eq_iff del: One_nat_def)

lemma ex_end_rdp_main:
  "rdp_main ex_argv ex_env_end ex_rdp =
     ([Socket 3, Connect 3 20480 0x0100000A 0, Socket 4, Connect 4 20736 0x0200000A 0,
       Select 5 [3, 4] 2 [3, 4], Recv 3 4096 2 [104, 105], Send 4 [104, 105] 2,
       Select 5 [3, 4] 1 [3], Recv 3 4096 0 [], Close 3, Close 4,
       Select 5 [3, 4] (-1) [3, 4]], Exited (-1))"
proof -
  have n: "length ex_argv = 5" by (simp add: ex_argv_def)
  have c: "ex_rdp\<lparr>closeneeded := 0\<rparr> = ex_rdp" by (simp add: ex_rdp_def)
  have l: "rdp_loop [4, 3, 0, 1, 2] ex_rdp [ex_pass, ex_eof] =
     ([Select 5 [3, 4] 2 [3, 4], Recv 3 4096 2 [104, 105], Send 4 [104, 105] 2,
       Select 5 [3, 4] 1 [3], Recv 3 4096 0 [], Close 3, Close 4,
       Select 5 [3, 4] (-1) [3, 4]], Exited (-1))"
    by (simp add: rdp_loop.simps model_defs example_defs)
  show ?thesis
    by (simp add: rdp_main_def n ex_end_rdp_for ex_end_sel c l del: One_nat_def)
qed

theorem variants_agree_witness:
  "fork_ret ex_env_end = 0 \<and>
   rdp_main ex_argv ex_env_end ex_rdp =
     ([Socket 3, Connect 3 20480 0x0100000A 0, Socket 4, Connect 4 20736 0x0200000A 0,
       Select 5 [3, 4] 2 [3, 4], Recv 3 4096 2 [104, 105], Send 4 [104, 105] 2,
       Select 5 [3, 4] 1 [3], Recv 3 4096 0 [], Close 3, Close 4,
       Select 5 [3, 4] (-1) [3, 4]], Exited (-1)) \<and>
   without_fork (fst (dp_main ex_argv ex_env_end (locals.truncate ex_rdp))) =
     [Socket 3, Connect 3 20480 0x0100000A 0, Socket 4, Connect 4 20736 0x0200000A 0,
       Select 5 [3, 4] 2 [3, 4], Recv 3 4096 2 [104, 105], Send 4 [104, 105] 2,
       Select 5 [3, 4] 1 [3], Recv 3 4096 0 [], Close 3, Close 4,
       Select 5 [3, 4] (-1) [3, 4]] \<and>
   status_agree (snd (dp_main ex_argv ex_env_end (locals.truncate ex_rdp))) (Exited (-1))"
  using variants_agree[of ex_argv ex_env_end "[0, 1, 2]" ex_rdp idle "[]"]
    ex_end_rdp_main ex_end_sel(5)
  by simp

section \<open>The write goes to the other socket\<close>

lemma rdp_iteration_opposite:
  assumes "rdp_iteration fds s e = (ev, r)" "sockfd s 0 \<noteq> sockfd s 1"
    "Recv src len n d \<in> set ev" "Send dst d' k \<in> set ev"
  shows "dst \<noteq> src \<and> d' = d \<and> {src, dst} = {sockfd s 0, sockfd s 1}"
proof (cases rule: rdp_iteration_cases[of fds s e])
  case (wfail r fdsr' i n b' k)
  from wfail(3) show ?thesis
    by (rule two_cases) (use assms wfail in auto)
next
  case (copy r fdsr' i n b' k)
  from copy(3) show ?thesis
    by (rule two_cases) (use assms copy in auto)
qed (use assms in auto)

lemma rdp_for_distinct:
  assumes "rdp_for 0 argv e fds s = (ev, Next fds1 s1)"
  shows "sockfd s1 0 \<noteq> sockfd s1 1 \<longleftrightarrow> connect_ret e 0 = 0"
  using assms new_fd_fresh[of "new_fd fds # fds"]
  by (auto simp: rdp_for_unfold rdp_dial_unfold split: if_splits option.splits)

lemma dp_iteration_opposite:
  assumes "dp_iteration fds s e = (ev, r)" "sockfd s 0 \<noteq> sockfd s 1"
    "Recv src len n d \<in> set ev" "Send dst d' k \<in> set ev"
  shows "dst \<noteq> src \<and> d' = d \<and> {src, dst} = {sockfd s 0, sockfd s 1}"
proof (cases rule: dp_iteration_cases[of fds s e])
  case (wfail r fdsr' i n b' k)
  from wfail(3) show ?thesis
    by (rule two_cases) (use assms wfail in auto)
next
  case (copy r fdsr' i n b' k)
  from copy(3) show ?thesis
    by (rule two_cases) (use assms copy in auto)
qed (use assms in auto)

lemma dp_for_distinct:
  assumes "dp_for 0 argv e fds s = (ev, Next fds1 s1)"
  shows "sockfd s1 0 \<noteq> sockfd s1 1 \<longleftrightarrow> connect_ret e 0 = 0"
  using assms new_fd_fresh[of "new_fd fds # fds"]
  by (auto simp: dp_for_unfold dp_dial_unfold split: if_splits option.splits)

lemma ex_rdp_main_run:
  "rdp_main ex_argv ex_env ex_rdp =
     ([Socket 3, Connect 3 20480 0x0100000A (-1), Perror ''connect'', Close 3,
       Socket 3, Connect 3 20736 0x0200000A 0,
       Select 4 [3, 3] 1 [3, 3], Recv 3 4096 2 [104, 105], Send 3 [104, 105] 2], Waiting)"
proof -
  have n: "length ex_argv = 5" by (simp add: ex_argv_def)
  show ?thesis
    by (simp add: rdp_main_def n ex_rdp_for ex_env_sel ex_rdp_loop del: One_nat_def)
qed

lemma ex_dp_main_run:
  "dp_main ex_argv ex_env ex_dp =
     ([Socket 3, Connect 3 20480 0x0100000A (-1), Perror ''connect'', Close 3,
       Socket 3, Connect 3 20736 0x0200000A 0, Fork 0, Setsid,
       Select 4 [3, 3] 1 [3, 3], Recv 3 4096 2 [104, 105], Send 3 [104, 105] 2], Waiting)"
proof -
  have n: "length ex_argv = 5" by (simp add: ex_argv_def)
  show ?thesis
    by (simp add: dp_main_def n ex_dp_for ex_env_sel ex_dp_loop del: One_nat_def)
qed

text \<open>
  C8. In a pass the write is on the other element of \<^verbatim>\<open>sockfd\<close> than the read, but
  the two elements need not be different sockets. When the first \<^verbatim>\<open>connect\<close> is refused the program closes that socket and
  goes on; the second \<^verbatim>\<open>socket\<close> call returns the descriptor number just freed, so both
  elements of \<^verbatim>\<open>sockfd\<close> name the second connection, and what is read from it is
  written back to it. This is the run of both programs on that input: two bytes are
  read from descriptor 3 and written to descriptor 3.
\<close>

theorem echo_after_refused_connect:
  "connect_ret ex_env 0 = -1 \<and> connect_ret ex_env 1 = 0 \<and>
   rdp_main ex_argv ex_env ex_rdp =
     ([Socket 3, Connect 3 20480 0x0100000A (-1), Perror ''connect'', Close 3,
       Socket 3, Connect 3 20736 0x0200000A 0,
       Select 4 [3, 3] 1 [3, 3], Recv 3 4096 2 [104, 105], Send 3 [104, 105] 2], Waiting) \<and>
   received (fst (rdp_main ex_argv ex_env ex_rdp)) = [(3, [104, 105])] \<and>
   written (fst (rdp_main ex_argv ex_env ex_rdp)) = [(3, [104, 105])] \<and>
   dp_main ex_argv ex_env ex_dp =
     ([Socket 3, Connect 3 20480 0x0100000A (-1), Perror ''connect'', Close 3,
       Socket 3, Connect 3 20736 0x0200000A 0, Fork 0, Setsid,
       Select 4 [3, 3] 1 [3, 3], Recv 3 4096 2 [104, 105], Send 3 [104, 105] 2], Waiting) \<and>
   received (fst (dp_main ex_argv ex_env ex_dp)) = [(3, [104, 105])] \<and>
   written (fst (dp_main ex_argv ex_env ex_dp)) = [(3, [104, 105])]"
  by (simp add: ex_rdp_main_run ex_dp_main_run ex_env_sel received_def written_def
      del: One_nat_def)

text \<open>
  Where \<^verbatim>\<open>sockfd[0]\<close> and \<^verbatim>\<open>sockfd[1]\<close> are different descriptors, the write of a pass
  is on a different descriptor than its read, with the same bytes, and the two are the
  two sockets. The dialling loop leaves different descriptors exactly when the first
  \<^verbatim>\<open>connect\<close> succeeded.
\<close>

theorem no_echo_between_distinct_descriptors:
  "(rdp_iteration fds s e = (ev, r) \<and> sockfd s 0 \<noteq> sockfd s 1 \<and>
      Recv src len n d \<in> set ev \<and> Send dst d' k \<in> set ev \<longrightarrow>
      dst \<noteq> src \<and> d' = d \<and> {src, dst} = {sockfd s 0, sockfd s 1}) \<and>
   (dp_iteration fds t e = (ev, q) \<and> sockfd t 0 \<noteq> sockfd t 1 \<and>
      Recv src len n d \<in> set ev \<and> Send dst d' k \<in> set ev \<longrightarrow>
      dst \<noteq> src \<and> d' = d \<and> {src, dst} = {sockfd t 0, sockfd t 1}) \<and>
   (rdp_for 0 argv e0 fds0 s0 = (ev0, Next fds1 s1) \<longrightarrow>
      (sockfd s1 0 \<noteq> sockfd s1 1 \<longleftrightarrow> connect_ret e0 0 = 0)) \<and>
   (dp_for 0 argv e0 fds0 t0 = (ev0, Next fds1 t1) \<longrightarrow>
      (sockfd t1 0 \<noteq> sockfd t1 1 \<longleftrightarrow> connect_ret e0 0 = 0))"
  using rdp_iteration_opposite[of fds s e ev r src len n d dst d' k]
    dp_iteration_opposite[of fds t e ev q src len n d dst d' k]
    rdp_for_distinct[of argv e0 fds0 s0 ev0 fds1 s1] dp_for_distinct[of argv e0 fds0 t0 ev0 fds1 t1]
  by blast

theorem no_echo_between_distinct_descriptors_witness:
  "rdp_iteration ex_fds ex_rdp ex_back =
     ([Select 5 [3, 4] 1 [4], Recv 4 4096 3 [111, 107, 33], Send 3 [111, 107, 33] 3],
      Some (Next ex_fds (ex_rdp\<lparr>buf := [111, 107, 33] @ replicate 4093 0, nbyt := 3\<rparr>))) \<and>
   sockfd ex_rdp 0 \<noteq> sockfd ex_rdp 1 \<and>
   Recv 4 4096 3 [111, 107, 33] \<in>
     set [Select 5 [3, 4] 1 [4], Recv 4 4096 3 [111, 107, 33], Send 3 [111, 107, 33] 3] \<and>
   Send 3 [111, 107, 33] 3 \<in>
     set [Select 5 [3, 4] 1 [4], Recv 4 4096 3 [111, 107, 33], Send 3 [111, 107, 33] 3] \<and>
   (3 :: int) \<noteq> 4 \<and> {4, 3} = {sockfd ex_rdp 0, sockfd ex_rdp 1} \<and>
   rdp_for 0 ex_argv ex_env_end [0, 1, 2] (ex_rdp\<lparr>maxsock := 0\<rparr>) =
     ([Socket 3, Connect 3 20480 0x0100000A 0, Socket 4, Connect 4 20736 0x0200000A 0],
      Next [4, 3, 0, 1, 2] ex_rdp) \<and>
   connect_ret ex_env_end 0 = 0"
proof -
  have a: "rdp_iteration ex_fds ex_rdp ex_back =
     ([Select 5 [3, 4] 1 [4], Recv 4 4096 3 [111, 107, 33], Send 3 [111, 107, 33] 3],
      Some (Next ex_fds (ex_rdp\<lparr>buf := [111, 107, 33] @ replicate 4093 0, nbyt := 3\<rparr>)))"
    by (simp add: model_defs example_defs)
  have d: "sockfd ex_rdp 0 = 3" "sockfd ex_rdp 1 = 4"
    by (simp_all add: example_defs)
  note th = no_echo_between_distinct_descriptors[of ex_fds ex_rdp ex_back
      "[Select 5 [3, 4] 1 [4], Recv 4 4096 3 [111, 107, 33], Send 3 [111, 107, 33] 3]"
      "Some (Next ex_fds (ex_rdp\<lparr>buf := [111, 107, 33] @ replicate 4093 0, nbyt := 3\<rparr>))"
      4 4096 3 "[111, 107, 33]" 3 "[111, 107, 33]" 3, THEN conjunct1]
  have "{4, 3} = {sockfd ex_rdp 0, sockfd ex_rdp 1}"
    using th a unfolding d by auto
  with a ex_end_rdp_for ex_end_sel(2)[of 0] show ?thesis
    unfolding d by simp
qed

section \<open>What reaches the other side\<close>

lemma delivered_written:
  "bounded_io ev \<Longrightarrow> list_all complete_write ev \<Longrightarrow> delivered ev = written ev"
  by (induction ev rule: bounded_io.induct) (auto simp: delivered_def written_def)

lemma rdp_iteration_taken:
  assumes "rdp_iteration fds s e = (ev, r)" "Send fd d k \<in> set ev"
  shows "writes ev = [fd] \<and> k \<le> int (length d) \<and>
         delivered ev = (if 0 < k then [(fd, take (nat k) d)] else [])"
  using assms
  by (cases rule: rdp_iteration_cases[of fds s e])
     (auto simp: writes_def delivered_def)

lemma rdp_iteration_read_fds:
  assumes "rdp_iteration fds s e = (ev, r)"
  shows "list_all (\<lambda>(fd, d). fd = sockfd s 0 \<or> fd = sockfd s 1) (received ev)"
proof (cases rule: rdp_iteration_cases[of fds s e])
  case (wfail r fdsr' i n b' k)
  from wfail(3) show ?thesis
    by (rule two_cases) (use assms wfail in \<open>auto simp: received_def\<close>)
next
  case (copy r fdsr' i n b' k)
  from copy(3) show ?thesis
    by (rule two_cases) (use assms copy in \<open>auto simp: received_def\<close>)
qed (use assms in \<open>auto simp: received_def\<close>)

lemma rdp_loop_read_fds:
  "list_all (\<lambda>(fd, d). fd = sockfd s 0 \<or> fd = sockfd s 1) (received (fst (rdp_loop fds s sc)))"
proof (induction sc arbitrary: fds s)
  case Nil
  obtain ev r where it: "rdp_iteration fds s idle = (ev, r)" by (cases "rdp_iteration fds s idle")
  from rdp_iteration_read_fds[OF it] show ?case by (simp add: rdp_loop_Nil[OF it])
next
  case (Cons e es)
  obtain ev r where it: "rdp_iteration fds s e = (ev, r)" by (cases "rdp_iteration fds s e")
  note rf = rdp_iteration_read_fds[OF it]
  show ?case
  proof (cases r)
    case None
    with it rf show ?thesis by (simp add: rdp_loop_block)
  next
    case (Some x)
    show ?thesis
    proof (cases x)
      case (Return st)
      with Some it rf show ?thesis by (simp add: rdp_loop_exit)
    next
      case (Next fds' s')
      with Some it have a: "rdp_iteration fds s e = (ev, Some (Next fds' s'))" by simp
      from rdp_iteration_frame[OF a] have "sockfd s' = sockfd s" by simp
      with rf Cons.IH[where s=s' and fds=fds'] show ?thesis by (simp add: rdp_loop_next[OF a])
    qed
  qed
qed

lemma rdp_loop_other_fd:
  assumes "sockfd s 0 \<noteq> sockfd s 1"
  shows "list_all (\<lambda>(fd, d). peer s fd \<noteq> fd) (received (fst (rdp_loop fds s sc)))"
  using rdp_loop_read_fds[where s=s and fds=fds and sc=sc] assms
  by (auto simp: list_all_iff peer_def)

lemma dp_iteration_taken:
  assumes "dp_iteration fds s e = (ev, r)" "Send fd d k \<in> set ev"
  shows "writes ev = [fd] \<and> k \<le> int (length d) \<and>
         delivered ev = (if 0 < k then [(fd, take (nat k) d)] else [])"
  using assms
  by (cases rule: dp_iteration_cases[of fds s e])
     (auto simp: writes_def delivered_def)

lemma dp_iteration_read_fds:
  assumes "dp_iteration fds s e = (ev, r)"
  shows "list_all (\<lambda>(fd, d). fd = sockfd s 0 \<or> fd = sockfd s 1) (received ev)"
proof (cases rule: dp_iteration_cases[of fds s e])
  case (wfail r fdsr' i n b' k)
  from wfail(3) show ?thesis
    by (rule two_cases) (use assms wfail in \<open>auto simp: received_def\<close>)
next
  case (copy r fdsr' i n b' k)
  from copy(3) show ?thesis
    by (rule two_cases) (use assms copy in \<open>auto simp: received_def\<close>)
qed (use assms in \<open>auto simp: received_def\<close>)

lemma dp_loop_read_fds:
  "list_all (\<lambda>(fd, d). fd = sockfd s 0 \<or> fd = sockfd s 1) (received (fst (dp_loop fds s sc)))"
proof (induction sc arbitrary: fds s)
  case Nil
  obtain ev r where it: "dp_iteration fds s idle = (ev, r)" by (cases "dp_iteration fds s idle")
  from dp_iteration_read_fds[OF it] show ?case by (simp add: dp_loop_Nil[OF it])
next
  case (Cons e es)
  obtain ev r where it: "dp_iteration fds s e = (ev, r)" by (cases "dp_iteration fds s e")
  note rf = dp_iteration_read_fds[OF it]
  show ?case
  proof (cases r)
    case None
    with it rf show ?thesis by (simp add: dp_loop_block)
  next
    case (Some x)
    show ?thesis
    proof (cases x)
      case (Return st)
      with Some it rf show ?thesis by (simp add: dp_loop_exit)
    next
      case (Next fds' s')
      with Some it have a: "dp_iteration fds s e = (ev, Some (Next fds' s'))" by simp
      from dp_iteration_frame[OF a] have "sockfd s' = sockfd s" by simp
      with rf Cons.IH[where s=s' and fds=fds'] show ?thesis by (simp add: dp_loop_next[OF a])
    qed
  qed
qed

lemma dp_loop_other_fd:
  assumes "sockfd s 0 \<noteq> sockfd s 1"
  shows "list_all (\<lambda>(fd, d). peer s fd \<noteq> fd) (received (fst (dp_loop fds s sc)))"
  using dp_loop_read_fds[where s=s and fds=fds and sc=sc] assms
  by (auto simp: list_all_iff peer_def)

text \<open>
  C1, as amended. Every byte sequence that a pass of the loop reads from one element
  of \<^verbatim>\<open>sockfd\<close> with a positive count is handed, whole and in order, to exactly one
  \<^verbatim>\<open>write\<close>, on the other element of \<^verbatim>\<open>sockfd\<close>: over a whole run of the loop, in either
  program, the list of the writes is the list of the positive reads with each
  descriptor replaced by its peer. Within one pass the bytes handed over are the first
  \<open>n\<close> bytes of the buffer, the positions the read filled. What the one write of a pass
  takes is the first \<open>k\<close> of them, \<open>k\<close> being the count it returns, and there is no
  second write. So when every write of the run is complete, what the writes have
  taken is the list of the positive reads: nothing is lost, repeated or cut short. And
  when \<^verbatim>\<open>sockfd[0]\<close> and \<^verbatim>\<open>sockfd[1]\<close> are different descriptors, every read is on one of
  them and its peer is the other one.
\<close>

theorem byte_fidelity:
  "written (fst (rdp_loop fds s sc)) =
     map (\<lambda>(fd, d). (peer s fd, d)) (received (fst (rdp_loop fds s sc))) \<and>
   written (fst (dp_loop fds t sc)) =
     map (\<lambda>(fd, d). (peer t fd, d)) (received (fst (dp_loop fds t sc))) \<and>
   (rdp_iteration fds s e = (ev, r) \<and> Recv src len n d \<in> set ev \<and> 0 < n \<longrightarrow>
      (\<exists>fds' s'. r = Some (Next fds' s') \<and> d = take (nat n) (buf s')) \<and>
      int (length d) = n \<and> written ev = [(peer s src, d)]) \<and>
   (dp_iteration fds t e = (ev, q) \<and> Recv src len n d \<in> set ev \<and> 0 < n \<longrightarrow>
      (\<exists>fds' t'. q = Some (Next fds' t') \<and> d = take (nat n) (buf t')) \<and>
      int (length d) = n \<and> written ev = [(peer t src, d)]) \<and>
   (rdp_iteration fds s e = (ev, r) \<and> Send dst d k \<in> set ev \<longrightarrow>
      writes ev = [dst] \<and> k \<le> int (length d) \<and>
      delivered ev = (if 0 < k then [(dst, take (nat k) d)] else [])) \<and>
   (dp_iteration fds t e = (ev, q) \<and> Send dst d k \<in> set ev \<longrightarrow>
      writes ev = [dst] \<and> k \<le> int (length d) \<and>
      delivered ev = (if 0 < k then [(dst, take (nat k) d)] else [])) \<and>
   (list_all complete_write (fst (rdp_loop fds s sc)) \<longrightarrow>
      delivered (fst (rdp_loop fds s sc)) =
        map (\<lambda>(fd, d). (peer s fd, d)) (received (fst (rdp_loop fds s sc)))) \<and>
   (list_all complete_write (fst (dp_loop fds t sc)) \<longrightarrow>
      delivered (fst (dp_loop fds t sc)) =
        map (\<lambda>(fd, d). (peer t fd, d)) (received (fst (dp_loop fds t sc)))) \<and>
   (sockfd s 0 \<noteq> sockfd s 1 \<longrightarrow>
      list_all (\<lambda>(fd, d). (fd = sockfd s 0 \<or> fd = sockfd s 1) \<and> peer s fd \<noteq> fd)
        (received (fst (rdp_loop fds s sc)))) \<and>
   (sockfd t 0 \<noteq> sockfd t 1 \<longrightarrow>
      list_all (\<lambda>(fd, d). (fd = sockfd t 0 \<or> fd = sockfd t 1) \<and> peer t fd \<noteq> fd)
        (received (fst (dp_loop fds t sc))))"
proof -
  have "delivered (fst (rdp_loop fds s sc)) = written (fst (rdp_loop fds s sc))"
    if "list_all complete_write (fst (rdp_loop fds s sc))"
    using delivered_written[OF rdp_loop_bounded that] .
  moreover have "delivered (fst (dp_loop fds t sc)) = written (fst (dp_loop fds t sc))"
    if "list_all complete_write (fst (dp_loop fds t sc))"
    using delivered_written[OF dp_loop_bounded that] .
  moreover have "list_all (\<lambda>(fd, d). (fd = sockfd s 0 \<or> fd = sockfd s 1) \<and> peer s fd \<noteq> fd)
        (received (fst (rdp_loop fds s sc)))"
    if "sockfd s 0 \<noteq> sockfd s 1"
    using rdp_loop_read_fds[where s=s and fds=fds and sc=sc]
      rdp_loop_other_fd[OF that, where fds=fds and sc=sc]
    by (auto simp: list_all_iff)
  moreover have "list_all (\<lambda>(fd, d). (fd = sockfd t 0 \<or> fd = sockfd t 1) \<and> peer t fd \<noteq> fd)
        (received (fst (dp_loop fds t sc)))"
    if "sockfd t 0 \<noteq> sockfd t 1"
    using dp_loop_read_fds[where s=t and fds=fds and sc=sc]
      dp_loop_other_fd[OF that, where fds=fds and sc=sc]
    by (auto simp: list_all_iff)
  ultimately show ?thesis
    using rdp_loop_written[of fds s sc] dp_loop_written[of fds t sc]
      rdp_iteration_recv[of fds s e ev r src len n d]
      dp_iteration_recv[of fds t e ev q src len n d]
      rdp_iteration_taken[of fds s e ev r dst d k]
      dp_iteration_taken[of fds t e ev q dst d k]
    by simp
qed

theorem byte_fidelity_witness:
  "rdp_iteration ex_fds ex_rdp ex_back =
     ([Select 5 [3, 4] 1 [4], Recv 4 4096 3 [111, 107, 33], Send 3 [111, 107, 33] 3],
      Some (Next ex_fds (ex_rdp\<lparr>buf := [111, 107, 33] @ replicate 4093 0, nbyt := 3\<rparr>))) \<and>
   Recv 4 4096 3 [111, 107, 33] \<in>
     set [Select 5 [3, 4] 1 [4], Recv 4 4096 3 [111, 107, 33], Send 3 [111, 107, 33] 3] \<and>
   (0 :: int) < 3 \<and>
   Send 3 [111, 107, 33] 3 \<in>
     set [Select 5 [3, 4] 1 [4], Recv 4 4096 3 [111, 107, 33], Send 3 [111, 107, 33] 3] \<and>
   written [Select 5 [3, 4] 1 [4], Recv 4 4096 3 [111, 107, 33], Send 3 [111, 107, 33] 3] =
     [(peer ex_rdp 4, [111, 107, 33])] \<and>
   peer ex_rdp 4 = 3 \<and>
   delivered [Select 5 [3, 4] 1 [4], Recv 4 4096 3 [111, 107, 33], Send 3 [111, 107, 33] 3] =
     [(3, [111, 107, 33])] \<and>
   sockfd ex_rdp 0 \<noteq> sockfd ex_rdp 1 \<and>
   list_all complete_write (fst (rdp_loop ex_fds ex_rdp [ex_pass, ex_back])) \<and>
   received (fst (rdp_loop ex_fds ex_rdp [ex_pass, ex_back])) =
     [(3, [104, 105]), (4, [111, 107, 33])] \<and>
   written (fst (rdp_loop ex_fds ex_rdp [ex_pass, ex_back])) =
     [(4, [104, 105]), (3, [111, 107, 33])] \<and>
   delivered (fst (rdp_loop ex_fds ex_rdp [ex_pass, ex_back])) =
     [(4, [104, 105]), (3, [111, 107, 33])] \<and>
   list_all complete_write (fst (dp_loop ex_fds ex_dp [ex_pass, ex_back])) \<and>
   delivered (fst (dp_loop ex_fds ex_dp [ex_pass, ex_back])) =
     [(4, [104, 105]), (3, [111, 107, 33])]"
proof -
  have a: "rdp_iteration ex_fds ex_rdp ex_back =
     ([Select 5 [3, 4] 1 [4], Recv 4 4096 3 [111, 107, 33], Send 3 [111, 107, 33] 3],
      Some (Next ex_fds (ex_rdp\<lparr>buf := [111, 107, 33] @ replicate 4093 0, nbyt := 3\<rparr>)))"
    by (simp add: model_defs example_defs)
  have b: "dp_iteration ex_fds ex_dp ex_back =
     ([Select 5 [3, 4] 1 [4], Recv 4 4096 3 [111, 107, 33], Send 3 [111, 107, 33] 3],
      Some (Next ex_fds (ex_dp\<lparr>buf := [111, 107, 33] @ replicate 4093 0\<rparr>)))"
    by (simp add: model_defs example_defs)
  have c: "received (fst (rdp_loop ex_fds ex_rdp [ex_pass, ex_back])) =
     [(3, [104, 105]), (4, [111, 107, 33])]"
    by (simp add: rdp_loop.simps model_defs example_defs received_def)
  have d: "received (fst (dp_loop ex_fds ex_dp [ex_pass, ex_back])) =
     [(3, [104, 105]), (4, [111, 107, 33])]"
    by (simp add: dp_loop.simps model_defs example_defs received_def)
  have f: "list_all complete_write (fst (rdp_loop ex_fds ex_rdp [ex_pass, ex_back]))"
    "list_all complete_write (fst (dp_loop ex_fds ex_dp [ex_pass, ex_back]))"
    by (simp_all add: rdp_loop.simps dp_loop.simps model_defs example_defs)
  have p: "peer ex_rdp 4 = 3" "peer ex_rdp 3 = 4" "peer ex_dp 4 = 3" "peer ex_dp 3 = 4"
    by (simp_all add: peer_def example_defs)
  have g: "sockfd ex_rdp 0 \<noteq> sockfd ex_rdp 1" "sockfd ex_rdp 0 \<noteq> sockfd ex_rdp (Suc 0)"
    by (simp_all add: example_defs)
  note th = byte_fidelity[where fds=ex_fds and s=ex_rdp and sc="[ex_pass, ex_back]"
      and t=ex_dp and e=ex_back
      and ev="[Select 5 [3, 4] 1 [4], Recv 4 4096 3 [111, 107, 33], Send 3 [111, 107, 33] 3]"
      and r="Some (Next ex_fds (ex_rdp\<lparr>buf := [111, 107, 33] @ replicate 4093 0, nbyt := 3\<rparr>))"
      and q="Some (Next ex_fds (ex_dp\<lparr>buf := [111, 107, 33] @ replicate 4093 0\<rparr>))"
      and src=4 and len=4096 and n=3 and d="[111, 107, 33]" and dst=3 and k=3]
  show ?thesis
    using th by (simp add: a b c d f p g)
qed

text \<open>
  C1 as stated fails. A write that returns less than it was handed cuts the sequence
  short and the loop goes on: two bytes are read from descriptor 3, the write on
  descriptor 4 takes one, nothing is closed, and the next pass reads from descriptor 4;
  the second byte is never written, in either program. And after a refused first
  \<^verbatim>\<open>connect\<close> the bytes read from the one connection are written to that same
  connection.
\<close>

theorem byte_fidelity_counterexample:
  "rdp_loop ex_fds ex_rdp [ex_short, ex_back] =
     ([Select 5 [3, 4] 1 [3], Recv 3 4096 2 [104, 105], Send 4 [104, 105] 1,
       Select 5 [3, 4] 1 [4], Recv 4 4096 3 [111, 107, 33], Send 3 [111, 107, 33] 3],
      Waiting) \<and>
   received (fst (rdp_loop ex_fds ex_rdp [ex_short, ex_back])) =
     [(3, [104, 105]), (4, [111, 107, 33])] \<and>
   delivered (fst (rdp_loop ex_fds ex_rdp [ex_short, ex_back])) =
     [(4, [104]), (3, [111, 107, 33])] \<and>
   received (fst (dp_loop ex_fds ex_dp [ex_short, ex_back])) =
     [(3, [104, 105]), (4, [111, 107, 33])] \<and>
   delivered (fst (dp_loop ex_fds ex_dp [ex_short, ex_back])) =
     [(4, [104]), (3, [111, 107, 33])] \<and>
   received (fst (rdp_main ex_argv ex_env ex_rdp)) = [(3, [104, 105])] \<and>
   delivered (fst (rdp_main ex_argv ex_env ex_rdp)) = [(3, [104, 105])]"
proof -
  have a: "rdp_loop ex_fds ex_rdp [ex_short, ex_back] =
     ([Select 5 [3, 4] 1 [3], Recv 3 4096 2 [104, 105], Send 4 [104, 105] 1,
       Select 5 [3, 4] 1 [4], Recv 4 4096 3 [111, 107, 33], Send 3 [111, 107, 33] 3],
      Waiting)"
    by (simp add: rdp_loop.simps model_defs example_defs)
  have b: "dp_loop ex_fds ex_dp [ex_short, ex_back] =
     ([Select 5 [3, 4] 1 [3], Recv 3 4096 2 [104, 105], Send 4 [104, 105] 1,
       Select 5 [3, 4] 1 [4], Recv 4 4096 3 [111, 107, 33], Send 3 [111, 107, 33] 3],
      Waiting)"
    by (simp add: dp_loop.simps model_defs example_defs)
  show ?thesis
    by (simp add: a b ex_rdp_main_run received_def delivered_def)
qed

end
